theory Spec2Isabelle
  imports Main "HOL-Library.Word"
begin

section \<open>Inventory service: records, photo files and the request handlers of main.js\<close>

text \<open>
  The service keeps one array of item records in memory (\<open>inventory\<close>), writes it as JSON
  to \<open>DB_FILE\<close> after every mutation, and keeps uploaded photos as files of
  \<open>PHOTOS_DIR\<close>. The model below follows \<open>src/main.js\<close> function by function. The
  state that the handlers read and write is passed explicitly; a handler returns its
  response together with the state it leaves. Routing (the method \<open>guard\<close>, the
  final 404), the command line and the documentation route are not part of the model.
\<close>

subsection \<open>JavaScript strings\<close>

text \<open>
  A JavaScript string is a sequence of 16-bit code units. \<open>ascii\<close> embeds the string
  literals of the source.
\<close>

type_synonym jsstring = "16 word list"

type_synonym bytes = "8 word list"

definition ascii :: "string \<Rightarrow> jsstring" where
  "ascii cs = map (\<lambda>c. of_nat (of_char c)) cs"

text \<open>
  \<open>String.prototype.trim\<close> strips WhiteSpace and LineTerminator code units from both
  ends: TAB, LF, VT, FF, CR, SP, NBSP, the Unicode space separators, LS, PS and ZWNBSP.
\<close>

definition WhiteSpace :: "16 word \<Rightarrow> bool" where
  "WhiteSpace c \<longleftrightarrow>
     c = 0x09 \<or> c = 0x0A \<or> c = 0x0B \<or> c = 0x0C \<or> c = 0x0D \<or> c = 0x20 \<or> c = 0xA0 \<or>
     c = 0x1680 \<or> (0x2000 \<le> c \<and> c \<le> 0x200A) \<or> c = 0x2028 \<or> c = 0x2029 \<or>
     c = 0x202F \<or> c = 0x205F \<or> c = 0x3000 \<or> c = 0xFEFF"

definition trim :: "jsstring \<Rightarrow> jsstring" where
  "trim s = rev (dropWhile WhiteSpace (rev (dropWhile WhiteSpace s)))"

subsection \<open>Numbers: \<open>Number(id)\<close> and \<open>String(n)\<close>\<close>

text \<open>
  \<open>genId\<close> converts every id with \<open>Number\<close>, takes \<open>Math.max\<close>, adds one and formats
  the result with \<open>String\<close>. JavaScript numbers are doubles. The model covers the
  fragment on which this arithmetic is exact: \<open>Number s\<close> is \<open>Some n\<close> when \<open>s\<close> is a
  non-empty string of decimal digits whose value \<open>n\<close> is at most
  \<open>Number.MAX_SAFE_INTEGER\<close>, and \<open>None\<close> for every other string (signs, fractions,
  exponents, hexadecimal, surrounding blanks, the empty string, texts that give NaN,
  larger values): what the source computes from those is not described here.
\<close>

definition MAX_SAFE_INTEGER :: nat where
  "MAX_SAFE_INTEGER = 2 ^ 53 - 1"

definition DecimalDigit :: "16 word \<Rightarrow> bool" where
  "DecimalDigit c \<longleftrightarrow> 0x30 \<le> c \<and> c \<le> 0x39"

definition digit_value :: "16 word \<Rightarrow> nat" where
  "digit_value c = unat c - 0x30"

definition decimal_value :: "jsstring \<Rightarrow> nat" where
  "decimal_value s = foldl (\<lambda>a c. 10 * a + digit_value c) 0 s"

definition Number :: "jsstring \<Rightarrow> nat option" where
  "Number s =
     (if s \<noteq> [] \<and> list_all DecimalDigit s \<and> decimal_value s \<le> MAX_SAFE_INTEGER
      then Some (decimal_value s) else None)"

definition digit_char :: "nat \<Rightarrow> 16 word" where
  "digit_char d = of_nat (0x30 + d)"

text \<open>
  \<open>String(n)\<close> of a natural number below \<open>10^21\<close> is its decimal numeral without
  leading zeros.
\<close>

fun String :: "nat \<Rightarrow> jsstring" where
  "String n = (if n < 10 then [digit_char n] else String (n div 10) @ [digit_char (n mod 10)])"

declare String.simps [simp del]

subsection \<open>Data model\<close>

text \<open>
  An item is the object literal built by the register handler:
  \<open>{ id, inventory_name, description, photoFilename }\<close>; \<open>photoFilename\<close> is a file name
  of \<open>PHOTOS_DIR\<close> or \<open>null\<close>. Body fields are strings, as multipart and urlencoded
  forms deliver them; \<open>None\<close> is \<open>undefined\<close> (the field is absent).
\<close>

record item =
  item_id :: jsstring
  inventory_name :: jsstring
  description :: jsstring
  photoFilename :: "jsstring option"

text \<open>
  The state: the \<open>inventory\<close> array, the text of \<open>DB_FILE\<close> (\<open>None\<close> when the file does
  not exist) and the files of \<open>PHOTOS_DIR\<close>, by name.
\<close>

record state =
  inventory :: "item list"
  db_file :: "jsstring option"
  photos :: "jsstring \<rightharpoonup> bytes"

text \<open>
  A request, as the handlers read it: \<open>req.protocol\<close>, \<open>req.get('host')\<close>,
  \<open>req.params.id\<close>, the two body fields, and the multipart part \<open>photo\<close>: the file name
  that multer draws for it (32 random hexadecimal digits) and its content.
\<close>

record request =
  protocol :: jsstring
  host :: jsstring
  params_id :: jsstring
  body_inventory_name :: "jsstring option"
  body_description :: "jsstring option"
  req_file :: "(jsstring \<times> bytes) option"

subsection \<open>The snapshot file: \<open>JSON.stringify(inventory, null, 2)\<close> and \<open>loadInventory\<close>\<close>

definition hex_digit :: "nat \<Rightarrow> 16 word" where
  "hex_digit n = (if n < 10 then of_nat (0x30 + n) else of_nat (0x61 + (n - 10)))"

definition UnicodeEscape :: "16 word \<Rightarrow> jsstring" where
  "UnicodeEscape c =
     [0x5C, 0x75, hex_digit (unat c div 4096 mod 16), hex_digit (unat c div 256 mod 16),
      hex_digit (unat c div 16 mod 16), hex_digit (unat c mod 16)]"

definition lead_surrogate :: "16 word \<Rightarrow> bool" where
  "lead_surrogate c \<longleftrightarrow> 0xD800 \<le> c \<and> c \<le> 0xDBFF"

definition trail_surrogate :: "16 word \<Rightarrow> bool" where
  "trail_surrogate c \<longleftrightarrow> 0xDC00 \<le> c \<and> c \<le> 0xDFFF"

text \<open>
  One code unit that is not part of a surrogate pair: the short escapes, \<open>\u00xx\<close> for
  the other control characters and for a lone surrogate, the unit itself otherwise.
\<close>

definition quote_unit :: "16 word \<Rightarrow> jsstring" where
  "quote_unit c =
     (if c = 0x08 then [0x5C, 0x62]
      else if c = 0x09 then [0x5C, 0x74]
      else if c = 0x0A then [0x5C, 0x6E]
      else if c = 0x0C then [0x5C, 0x66]
      else if c = 0x0D then [0x5C, 0x72]
      else if c = 0x22 then [0x5C, 0x22]
      else if c = 0x5C then [0x5C, 0x5C]
      else if c < 0x20 \<or> lead_surrogate c \<or> trail_surrogate c then UnicodeEscape c
      else [c])"

fun quote_units :: "jsstring \<Rightarrow> jsstring" where
  "quote_units [] = []"
| "quote_units [c] = quote_unit c"
| "quote_units (c # d # ds) =
     (if lead_surrogate c \<and> trail_surrogate d then c # d # quote_units ds
      else quote_unit c @ quote_units (d # ds))"

definition QuoteJSONString :: "jsstring \<Rightarrow> jsstring" where
  "QuoteJSONString s = [0x22] @ quote_units s @ [0x22]"

fun join :: "jsstring \<Rightarrow> jsstring list \<Rightarrow> jsstring" where
  "join sep [] = []"
| "join sep [x] = x"
| "join sep (x # y # ys) = x @ sep @ join sep (y # ys)"

definition member :: "string \<Rightarrow> jsstring \<Rightarrow> jsstring" where
  "member key v = QuoteJSONString (ascii key) @ ascii '': '' @ v"

text \<open>An item inside the array: its members at indent 4, the closing brace at indent 2.\<close>

definition stringify_item :: "item \<Rightarrow> jsstring" where
  "stringify_item i =
     ascii ''{'' @ [0x0A] @ ascii ''    '' @
     join (ascii '','' @ [0x0A] @ ascii ''    '')
       [member ''id'' (QuoteJSONString (item_id i)),
        member ''inventory_name'' (QuoteJSONString (inventory_name i)),
        member ''description'' (QuoteJSONString (description i)),
        member ''photoFilename''
          (case photoFilename i of None \<Rightarrow> ascii ''null'' | Some f \<Rightarrow> QuoteJSONString f)] @
     [0x0A] @ ascii ''  '' @ ascii ''}''"

definition JSON_stringify :: "item list \<Rightarrow> jsstring" where
  "JSON_stringify items =
     (if items = [] then ascii ''[]''
      else ascii ''['' @ [0x0A] @ ascii ''  '' @
           join (ascii '','' @ [0x0A] @ ascii ''  '') (map stringify_item items) @
           [0x0A] @ ascii '']'')"

text \<open>
  \<open>loadInventory\<close>: \<open>readFileSync\<close> throws when the file cannot be read (content
  \<open>None\<close>), \<open>JSON.parse\<close> throws on a text that is not JSON (\<open>None\<close>); both exceptions
  are caught and give \<open>[]\<close>. \<open>JSON.parse\<close> is a parameter; a text that parses to
  something other than an array of items is outside the type of the result.
\<close>

definition loadInventory :: "(jsstring \<Rightarrow> item list option) \<Rightarrow> jsstring option \<Rightarrow> item list" where
  "loadInventory JSON_parse content =
     (case content of
        None \<Rightarrow> []
      | Some text \<Rightarrow> (case JSON_parse text of None \<Rightarrow> [] | Some v \<Rightarrow> v))"

text \<open>The state at process start: \<open>let inventory = loadInventory()\<close>.\<close>

definition start :: "(jsstring \<Rightarrow> item list option) \<Rightarrow> jsstring option \<Rightarrow> (jsstring \<rightharpoonup> bytes) \<Rightarrow> state" where
  "start JSON_parse content dir =
     \<lparr>inventory = loadInventory JSON_parse content, db_file = content, photos = dir\<rparr>"

definition saveInventory :: "state \<Rightarrow> state" where
  "saveInventory s = s\<lparr>db_file := Some (JSON_stringify (inventory s))\<rparr>"

subsection \<open>\<open>genId\<close>, \<open>findItem\<close>, \<open>photoUrl\<close>, \<open>dto\<close>\<close>

text \<open>\<open>Math.max(0, ...ns)\<close>.\<close>

definition Math_max0 :: "nat list \<Rightarrow> nat" where
  "Math_max0 ns = foldl max 0 ns"

text \<open>
  \<open>genId\<close> is \<open>None\<close> when some id of the inventory is outside the fragment of
  \<open>Number\<close> described above. (The limit of the engine on the number of arguments
  of the spread call is not modelled.)
\<close>

definition genId :: "item list \<Rightarrow> jsstring option" where
  "genId items =
     (case those (map (\<lambda>i. Number (item_id i)) items) of
        None \<Rightarrow> None
      | Some ns \<Rightarrow> Some (String (Math_max0 ns + 1)))"

definition findItem :: "item list \<Rightarrow> jsstring \<Rightarrow> item option" where
  "findItem items ident = find (\<lambda>i. item_id i = ident) items"

text \<open>Truthiness of \<open>item.photoFilename\<close>: \<open>null\<close> and the empty string are falsy.\<close>

definition truthy :: "jsstring option \<Rightarrow> bool" where
  "truthy v = (case v of None \<Rightarrow> False | Some s \<Rightarrow> s \<noteq> [])"

definition photoUrl :: "request \<Rightarrow> item \<Rightarrow> jsstring option" where
  "photoUrl req i =
     (if truthy (photoFilename i)
      then Some (protocol req @ ascii ''://'' @ host req @ ascii ''/inventory/'' @ item_id i @
                 ascii ''/photo'')
      else None)"

record view =
  view_id :: jsstring
  view_inventory_name :: jsstring
  view_description :: jsstring
  view_photo_url :: "jsstring option"

definition dto :: "request \<Rightarrow> item \<Rightarrow> view" where
  "dto req i =
     \<lparr>view_id = item_id i, view_inventory_name = inventory_name i,
      view_description = description i, view_photo_url = photoUrl req i\<rparr>"

subsection \<open>Responses\<close>

datatype json_body =
    Error string
  | Item view
  | Items "view list"
  | Message string
  | PhotoUpdated jsstring "jsstring option" string

text \<open>
  \<open>res.status(n).json(b)\<close>, \<open>res.status(n).send(text)\<close> and
  \<open>res.type(t).sendFile(file)\<close> with the bytes of the file.
\<close>

datatype response =
    Json nat json_body
  | Send nat string
  | SendFile string bytes

fun status :: "response \<Rightarrow> nat" where
  "status (Json n b) = n"
| "status (Send n t) = n"
| "status (SendFile t b) = 200"

text \<open>
  The outcomes of the specification: a validation failure is the status 400, not found
  the status 404.
\<close>

definition ValidationError :: "response \<Rightarrow> bool" where
  "ValidationError r \<longleftrightarrow> status r = 400"

definition NotFound :: "response \<Rightarrow> bool" where
  "NotFound r \<longleftrightarrow> status r = 404"

subsection \<open>Effects on \<open>PHOTOS_DIR\<close>\<close>

text \<open>
  \<open>upload.single('photo')\<close> runs before the handler of the route: when the request
  carries the part \<open>photo\<close>, multer writes its content to \<open>PHOTOS_DIR\<close> under the name
  it drew, and the handler finds that name in \<open>req.file.filename\<close>.
\<close>

definition upload_single :: "state \<Rightarrow> request \<Rightarrow> state" where
  "upload_single s req =
     (case req_file req of
        None \<Rightarrow> s
      | Some (filename, content) \<Rightarrow> s\<lparr>photos := (photos s)(filename \<mapsto> content)\<rparr>)"

text \<open>
  \<open>fs.promises.unlink(path.join(PHOTOS_DIR, name)).catch(() => {})\<close>: the file is
  removed; a missing file is no error. The promise is not awaited; the model takes the
  removal at the place where the handler starts it.
\<close>

definition unlink :: "jsstring \<Rightarrow> state \<Rightarrow> state" where
  "unlink name s = s\<lparr>photos := (photos s)(name := None)\<rparr>"

text \<open>\<open>if (item.photoFilename) { unlink(...) }\<close>, as the delete and photo handlers do.\<close>

definition unlink_photo :: "item \<Rightarrow> state \<Rightarrow> state" where
  "unlink_photo i s =
     (case photoFilename i of
        None \<Rightarrow> s
      | Some name \<Rightarrow> if truthy (Some name) then unlink name s else s)"

subsection \<open>Array helpers\<close>

text \<open>\<open>findIndex\<close> gives \<open>None\<close> where JavaScript gives \<open>-1\<close>.\<close>

fun findIndex :: "('a \<Rightarrow> bool) \<Rightarrow> 'a list \<Rightarrow> nat option" where
  "findIndex P [] = None"
| "findIndex P (x # xs) = (if P x then Some 0 else map_option Suc (findIndex P xs))"

text \<open>
  The handlers assign to fields of the object that \<open>findItem\<close> returned, which is the
  first element of the array with that id: \<open>store_found ident i' items\<close> is the array
  once that element has become \<open>i'\<close>.
\<close>

fun store_found :: "jsstring \<Rightarrow> item \<Rightarrow> item list \<Rightarrow> item list" where
  "store_found ident i' [] = []"
| "store_found ident i' (x # xs) =
     (if item_id x = ident then i' # xs else x # store_found ident i' xs)"

subsection \<open>The handlers\<close>

text \<open>
  \<open>POST /register\<close>, after \<open>upload.single('photo')\<close>. The result is \<open>None\<close>
  only where \<open>genId\<close> is: on an inventory with an id that \<open>Number\<close> does not
  cover.
\<close>

definition register_handler :: "state \<Rightarrow> request \<Rightarrow> (response \<times> state) option" where
  "register_handler s req =
     (let desc = (case body_description req of None \<Rightarrow> [] | Some d \<Rightarrow> d) in
      case body_inventory_name req of
        None \<Rightarrow> Some (Json 400 (Error ''inventory_name is required''), s)
      | Some name \<Rightarrow>
          if name = [] \<or> trim name = []
          then Some (Json 400 (Error ''inventory_name is required''), s)
          else (case genId (inventory s) of
                  None \<Rightarrow> None
                | Some new_id \<Rightarrow>
                    let i = \<lparr>item_id = new_id, inventory_name = name, description = desc,
                             photoFilename = map_option fst (req_file req)\<rparr>;
                        s' = saveInventory (s\<lparr>inventory := inventory s @ [i]\<rparr>)
                    in Some (Json 201 (Item (dto req i)), s')))"

definition post_register :: "state \<Rightarrow> request \<Rightarrow> (response \<times> state) option" where
  "post_register s req = register_handler (upload_single s req) req"

text \<open>\<open>GET /inventory\<close> and \<open>GET /inventory/:id\<close>.\<close>

definition get_inventory :: "state \<Rightarrow> request \<Rightarrow> response" where
  "get_inventory s req = Json 200 (Items (map (dto req) (inventory s)))"

definition get_inventory_id :: "state \<Rightarrow> request \<Rightarrow> response" where
  "get_inventory_id s req =
     (case findItem (inventory s) (params_id req) of
        None \<Rightarrow> Json 404 (Error ''Not found'')
      | Some i \<Rightarrow> Json 200 (Item (dto req i)))"

text \<open>\<open>PUT /inventory/:id\<close>.\<close>

definition put_inventory_id :: "state \<Rightarrow> request \<Rightarrow> response \<times> state" where
  "put_inventory_id s req =
     (case findItem (inventory s) (params_id req) of
        None \<Rightarrow> (Json 404 (Error ''Not found''), s)
      | Some i \<Rightarrow>
          let i1 = (case body_inventory_name req of
                      None \<Rightarrow> i | Some v \<Rightarrow> i\<lparr>inventory_name := v\<rparr>);
              i2 = (case body_description req of
                      None \<Rightarrow> i1 | Some v \<Rightarrow> i1\<lparr>description := v\<rparr>);
              s' = saveInventory
                     (s\<lparr>inventory := store_found (params_id req) i2 (inventory s)\<rparr>)
          in (Json 200 (Item (dto req i2)), s'))"

text \<open>\<open>DELETE /inventory/:id\<close>: \<open>splice(index, 1)\<close>, then the unlink, then the save.\<close>

definition delete_inventory_id :: "state \<Rightarrow> request \<Rightarrow> response \<times> state" where
  "delete_inventory_id s req =
     (case findIndex (\<lambda>i. item_id i = params_id req) (inventory s) of
        None \<Rightarrow> (Json 404 (Error ''Not found''), s)
      | Some index \<Rightarrow>
          let removed = inventory s ! index;
              s1 = s\<lparr>inventory := take index (inventory s) @ drop (Suc index) (inventory s)\<rparr>;
              s2 = unlink_photo removed s1
          in (Json 200 (Message ''Deleted''), saveInventory s2))"

text \<open>\<open>GET /inventory/:id/photo\<close>.\<close>

definition get_inventory_id_photo :: "state \<Rightarrow> request \<Rightarrow> response" where
  "get_inventory_id_photo s req =
     (case findItem (inventory s) (params_id req) of
        None \<Rightarrow> Send 404 ''Not found''
      | Some i \<Rightarrow>
          if \<not> truthy (photoFilename i) then Send 404 ''Not found''
          else (case photoFilename i of
                  None \<Rightarrow> Send 404 ''Not found''
                | Some name \<Rightarrow>
                    (case photos s name of
                       None \<Rightarrow> Send 404 ''Not found''
                     | Some content \<Rightarrow> SendFile ''jpg'' content)))"

text \<open>\<open>PUT /inventory/:id/photo\<close>, after \<open>upload.single('photo')\<close>.\<close>

definition photo_handler :: "state \<Rightarrow> request \<Rightarrow> response \<times> state" where
  "photo_handler s req =
     (case findItem (inventory s) (params_id req) of
        None \<Rightarrow> (Json 404 (Error ''Not found''), s)
      | Some i \<Rightarrow>
          (case req_file req of
             None \<Rightarrow> (Json 400 (Error ''photo file is required''), s)
           | Some (filename, content) \<Rightarrow>
               let s1 = unlink_photo i s;
                   i' = i\<lparr>photoFilename := Some filename\<rparr>;
                   s2 = saveInventory
                          (s1\<lparr>inventory := store_found (params_id req) i' (inventory s1)\<rparr>)
               in (Json 200 (PhotoUpdated (item_id i') (photoUrl req i') ''Photo updated''),
                   s2)))"

definition put_inventory_id_photo :: "state \<Rightarrow> request \<Rightarrow> response \<times> state" where
  "put_inventory_id_photo s req = photo_handler (upload_single s req) req"

subsection \<open>Sequences of register calls\<close>

fun register_all :: "state \<Rightarrow> request list \<Rightarrow> (response list \<times> state) option" where
  "register_all s [] = Some ([], s)"
| "register_all s (req # reqs) =
     (case post_register s req of
        None \<Rightarrow> None
      | Some (r, s1) \<Rightarrow>
          (case register_all s1 reqs of
             None \<Rightarrow> None
           | Some (rs, s2) \<Rightarrow> Some (r # rs, s2)))"

subsection \<open>Properties of states\<close>

text \<open>The numeric ids of the records, when every id is in the fragment of \<open>Number\<close>.\<close>

definition id_numbers :: "item list \<Rightarrow> nat list option" where
  "id_numbers items = those (map (\<lambda>i. Number (item_id i)) items)"

text \<open>
  A file name is referenced when some record holds it as its photo reference. An orphan
  is a file of \<open>PHOTOS_DIR\<close> that no record references. \<open>no_orphans\<close> is the
  invariant of the specification: the referenced names are exactly the existing files.
\<close>

definition referenced :: "item list \<Rightarrow> jsstring \<Rightarrow> bool" where
  "referenced items name \<longleftrightarrow> (\<exists>i \<in> set items. photoFilename i = Some name)"

definition orphan :: "state \<Rightarrow> jsstring \<Rightarrow> bool" where
  "orphan s name \<longleftrightarrow> photos s name \<noteq> None \<and> \<not> referenced (inventory s) name"

definition no_orphans :: "state \<Rightarrow> bool" where
  "no_orphans s \<longleftrightarrow> (\<forall>name. referenced (inventory s) name = (photos s name \<noteq> None))"

text \<open>
  The photo references of the records, in the order of the array. A state is
  \<open>consistent\<close> when it has no orphan and no dangling reference, no two records share
  a file, and no reference is the empty string (which the handlers take for no photo).
\<close>

fun photo_refs :: "item list \<Rightarrow> jsstring list" where
  "photo_refs [] = []"
| "photo_refs (i # items) =
     (case photoFilename i of
        None \<Rightarrow> photo_refs items
      | Some name \<Rightarrow> name # photo_refs items)"

definition consistent :: "state \<Rightarrow> bool" where
  "consistent s \<longleftrightarrow>
     no_orphans s \<and> distinct (photo_refs (inventory s)) \<and> [] \<notin> set (photo_refs (inventory s))"

text \<open>
  The name multer draws is new: no file of the directory and no record has it. (The
  source relies on the 128 random bits of the name for this.)
\<close>

definition fresh_name :: "state \<Rightarrow> jsstring \<Rightarrow> bool" where
  "fresh_name s name \<longleftrightarrow> photos s name = None \<and> \<not> referenced (inventory s) name"


text \<open>A name that the register handler accepts.\<close>

definition valid_name :: "jsstring option \<Rightarrow> bool" where
  "valid_name v = (case v of None \<Rightarrow> False | Some name \<Rightarrow> trim name \<noteq> [])"

subsection \<open>A concrete inventory\<close>

text \<open>
  The scenario of the specification: item 1 (Widget, no photo) and item 2 (Gadget, with
  a photo), as two register calls on an empty inventory leave them.
\<close>

definition widget :: item where
  "widget = \<lparr>item_id = ascii ''1'', inventory_name = ascii ''Widget'', description = [],
             photoFilename = None\<rparr>"

definition gadget_photo :: jsstring where
  "gadget_photo = ascii ''5f1d7a0c9b3e4f62a8d0c1e2b3a49586''"

definition gadget :: item where
  "gadget = \<lparr>item_id = ascii ''2'', inventory_name = ascii ''Gadget'', description = [],
             photoFilename = Some gadget_photo\<rparr>"

definition jpeg :: bytes where
  "jpeg = [0xFF, 0xD8, 0xFF, 0xE0]"

definition png :: bytes where
  "png = [0x89, 0x50, 0x4E, 0x47]"

definition shop :: state where
  "shop = \<lparr>inventory = [widget, gadget], db_file = Some (JSON_stringify [widget, gadget]),
           photos = [gadget_photo \<mapsto> jpeg]\<rparr>"

definition empty_shop :: state where
  "empty_shop = \<lparr>inventory = [], db_file = None, photos = Map.empty\<rparr>"

definition new_photo :: jsstring where
  "new_photo = ascii ''c3a1e5d27b9f4086a2d4f6b8c0e1a357''"

definition plain_request :: request where
  "plain_request =
     \<lparr>protocol = ascii ''http'', host = ascii ''localhost:3000'', params_id = [],
      body_inventory_name = None, body_description = None, req_file = None\<rparr>"

section \<open>Lemmas about the helpers\<close>

subsection \<open>\<open>trim\<close>, \<open>findItem\<close>, \<open>findIndex\<close>, \<open>store_found\<close>\<close>

lemma trim_Nil_iff: "trim s = [] \<longleftrightarrow> (\<forall>c \<in> set s. WhiteSpace c)"
proof
  assume "trim s = []"
  then have a: "\<forall>c \<in> set (dropWhile WhiteSpace s). WhiteSpace c"
    by (simp add: trim_def)
  have "dropWhile WhiteSpace s = []"
  proof (rule ccontr)
    assume n: "dropWhile WhiteSpace s \<noteq> []"
    then have "\<not> WhiteSpace (hd (dropWhile WhiteSpace s))" by (rule hd_dropWhile)
    moreover have "hd (dropWhile WhiteSpace s) \<in> set (dropWhile WhiteSpace s)" using n by simp
    ultimately show False using a by blast
  qed
  then show "\<forall>c \<in> set s. WhiteSpace c" by simp
next
  assume "\<forall>c \<in> set s. WhiteSpace c"
  then have d: "dropWhile WhiteSpace s = []" by simp
  show "trim s = []" unfolding trim_def d by simp
qed

lemma findItem_Nil [simp]: "findItem [] k = None"
  by (simp add: findItem_def)

lemma findItem_Cons [simp]:
  "findItem (x # xs) k = (if item_id x = k then Some x else findItem xs k)"
  by (simp add: findItem_def)

lemma findItem_Some_id: "findItem xs k = Some i \<Longrightarrow> item_id i = k"
  by (induction xs) (auto split: if_splits)

lemma findItem_Some_mem: "findItem xs k = Some i \<Longrightarrow> i \<in> set xs"
  by (induction xs) (auto split: if_splits)

lemma findItem_None_iff: "findItem xs k = None \<longleftrightarrow> k \<notin> item_id ` set xs"
  by (induction xs) auto

lemma findItem_store_found_same:
  "findItem xs k = Some i \<Longrightarrow> item_id i' = k \<Longrightarrow> findItem (store_found k i' xs) k = Some i'"
  by (induction xs) (auto split: if_splits)

lemma findItem_store_found_other:
  "item_id i' = k \<Longrightarrow> j \<noteq> k \<Longrightarrow> findItem (store_found k i' xs) j = findItem xs j"
  by (induction xs) auto

lemma store_found_noop: "findItem xs k = Some i \<Longrightarrow> store_found k i xs = xs"
  by (induction xs) (auto split: if_splits)

lemma store_found_ids: "item_id i' = k \<Longrightarrow> map item_id (store_found k i' xs) = map item_id xs"
  by (induction xs) auto

lemma length_store_found [simp]: "length (store_found k i' xs) = length xs"
  by (induction xs) auto

lemma findIndex_None_iff: "findIndex (\<lambda>i. item_id i = k) xs = None \<longleftrightarrow> findItem xs k = None"
  by (induction xs) auto

lemma findIndex_Some:
  "findIndex (\<lambda>i. item_id i = k) xs = Some n \<Longrightarrow> n < length xs \<and> findItem xs k = Some (xs ! n)"
  by (induction xs arbitrary: n) (auto split: if_splits)

lemma findItem_splice:
  "distinct (map item_id xs) \<Longrightarrow> findIndex (\<lambda>i. item_id i = k) xs = Some n \<Longrightarrow>
   findItem (take n xs @ drop (Suc n) xs) k = None"
proof (induction xs arbitrary: n)
  case Nil
  then show ?case by simp
next
  case (Cons x xs)
  show ?case
  proof (cases "item_id x = k")
    case True
    with Cons.prems show ?thesis by (auto simp: findItem_None_iff)
  next
    case False
    with Cons.prems obtain m where m: "findIndex (\<lambda>i. item_id i = k) xs = Some m" "n = Suc m"
      by auto
    with Cons.IH [of m] Cons.prems False show ?thesis by simp
  qed
qed

lemma splice_filter:
  "distinct (map item_id xs) \<Longrightarrow> findIndex (\<lambda>i. item_id i = k) xs = Some n \<Longrightarrow>
   take n xs @ drop (Suc n) xs = filter (\<lambda>i. item_id i \<noteq> k) xs"
proof (induction xs arbitrary: n)
  case Nil
  then show ?case by simp
next
  case (Cons x xs)
  show ?case
  proof (cases "item_id x = k")
    case True
    with Cons.prems have "k \<notin> item_id ` set xs" by auto
    then have "filter (\<lambda>i. item_id i \<noteq> k) xs = xs" by (auto simp: filter_id_conv)
    with True Cons.prems show ?thesis by simp
  next
    case False
    with Cons.prems obtain m where m: "findIndex (\<lambda>i. item_id i = k) xs = Some m" "n = Suc m"
      by auto
    with Cons.IH [of m] Cons.prems False show ?thesis by simp
  qed
qed

lemma findItem_splice_other:
  "findIndex (\<lambda>i. item_id i = k) xs = Some n \<Longrightarrow> j \<noteq> k \<Longrightarrow>
   findItem (take n xs @ drop (Suc n) xs) j = findItem xs j"
proof (induction xs arbitrary: n)
  case Nil
  then show ?case by simp
next
  case (Cons x xs)
  show ?case
  proof (cases "item_id x = k")
    case True
    with Cons.prems show ?thesis by auto
  next
    case False
    with Cons.prems obtain m where m: "findIndex (\<lambda>i. item_id i = k) xs = Some m" "n = Suc m"
      by auto
    with Cons.IH [of m] Cons.prems False show ?thesis by simp
  qed
qed

subsection \<open>Facts about the concrete inventory\<close>

lemma gadget_photo_nonempty: "gadget_photo \<noteq> []"
  by (simp add: gadget_photo_def ascii_def)

lemma ascii_1_neq_2: "ascii ''1'' \<noteq> ascii ''2''"
  by (simp add: ascii_def)

lemma shop_find_gadget: "findItem (inventory shop) (ascii ''2'') = Some gadget"
  by (simp add: shop_def widget_def gadget_def ascii_def)

lemma shop_find_widget: "findItem (inventory shop) (ascii ''1'') = Some widget"
  by (simp add: shop_def widget_def)

lemma shop_find_none: "findItem (inventory shop) (ascii ''7'') = None"
  by (simp add: shop_def widget_def gadget_def ascii_def)

lemma blanks_WhiteSpace: "\<forall>c \<in> set (ascii ''   ''). WhiteSpace c"
  by (simp add: ascii_def WhiteSpace_def)

lemma new_photo_neq_gadget_photo: "new_photo \<noteq> gadget_photo"
  by (simp add: new_photo_def gadget_photo_def ascii_def)

lemma shop_fresh_new_photo: "fresh_name shop new_photo"
  using new_photo_neq_gadget_photo
  by (auto simp: fresh_name_def referenced_def shop_def widget_def gadget_def)

subsection \<open>The handlers on a known and on an unknown id\<close>

lemma put_inventory_id_found:
  assumes "findItem (inventory s) (params_id req) = Some i"
  shows "put_inventory_id s req =
     (Json 200 (Item (dto req
        (i\<lparr>inventory_name := (case body_inventory_name req of None \<Rightarrow> inventory_name i | Some v \<Rightarrow> v),
           description := (case body_description req of None \<Rightarrow> description i | Some v \<Rightarrow> v)\<rparr>))),
      saveInventory (s\<lparr>inventory := store_found (params_id req)
        (i\<lparr>inventory_name := (case body_inventory_name req of None \<Rightarrow> inventory_name i | Some v \<Rightarrow> v),
           description := (case body_description req of None \<Rightarrow> description i | Some v \<Rightarrow> v)\<rparr>)
        (inventory s)\<rparr>))"
  using assms by (simp add: put_inventory_id_def Let_def split: option.splits)

lemma put_inventory_id_photo_unknown:
  assumes "findItem (inventory s) (params_id req) = None"
  shows "put_inventory_id_photo s req = (Json 404 (Error ''Not found''), upload_single s req)"
proof -
  have "inventory (upload_single s req) = inventory s"
    by (simp add: upload_single_def split: option.splits)
  with assms show ?thesis
    by (simp add: put_inventory_id_photo_def photo_handler_def)
qed

lemma unlink_photo_inventory [simp]: "inventory (unlink_photo i s) = inventory s"
  by (simp add: unlink_photo_def unlink_def split: option.splits)

lemma unlink_photo_db_file [simp]: "db_file (unlink_photo i s) = db_file s"
  by (simp add: unlink_photo_def unlink_def split: option.splits)

lemma unlink_photo_photos:
  "photos (unlink_photo i s) =
     (case photoFilename i of
        None \<Rightarrow> photos s
      | Some name \<Rightarrow> if name = [] then photos s else (photos s)(name := None))"
  by (simp add: unlink_photo_def unlink_def truthy_def split: option.splits)

lemma delete_inventory_id_unknown:
  assumes "findItem (inventory s) (params_id req) = None"
  shows "delete_inventory_id s req = (Json 404 (Error ''Not found''), s)"
proof -
  have "findIndex (\<lambda>i. item_id i = params_id req) (inventory s) = None"
    using assms by (simp add: findIndex_None_iff)
  then show ?thesis by (simp add: delete_inventory_id_def)
qed

lemma delete_inventory_id_found:
  assumes "findIndex (\<lambda>i. item_id i = params_id req) (inventory s) = Some n"
  shows "delete_inventory_id s req =
     (Json 200 (Message ''Deleted''),
      saveInventory (unlink_photo (inventory s ! n)
        (s\<lparr>inventory := take n (inventory s) @ drop (Suc n) (inventory s)\<rparr>)))"
  using assms by (simp add: delete_inventory_id_def Let_def)

lemma shop_distinct: "distinct (map item_id (inventory shop))"
  by (simp add: shop_def widget_def gadget_def ascii_def)

subsection \<open>The upload and the photo handler\<close>

lemma upload_single_inventory [simp]: "inventory (upload_single s req) = inventory s"
  by (simp add: upload_single_def split: option.splits)

lemma upload_single_db_file [simp]: "db_file (upload_single s req) = db_file s"
  by (simp add: upload_single_def split: option.splits)

lemma upload_single_photos:
  "photos (upload_single s req) =
     (case req_file req of None \<Rightarrow> photos s | Some (filename, content) \<Rightarrow> (photos s)(filename \<mapsto> content))"
  by (simp add: upload_single_def split: option.splits)

lemma upload_single_no_file: "req_file req = None \<Longrightarrow> upload_single s req = s"
  by (simp add: upload_single_def)

lemma put_inventory_id_photo_found:
  assumes "findItem (inventory s) (params_id req) = Some i"
      and "req_file req = Some (filename, content)"
  shows "put_inventory_id_photo s req =
     (Json 200 (PhotoUpdated (item_id i) (photoUrl req (i\<lparr>photoFilename := Some filename\<rparr>))
        ''Photo updated''),
      saveInventory ((unlink_photo i (upload_single s req))
        \<lparr>inventory := store_found (params_id req) (i\<lparr>photoFilename := Some filename\<rparr>)
           (inventory s)\<rparr>))"
  using assms by (simp add: put_inventory_id_photo_def photo_handler_def Let_def)

lemma put_inventory_id_photo_no_file:
  assumes "findItem (inventory s) (params_id req) = Some i"
      and "req_file req = None"
  shows "put_inventory_id_photo s req = (Json 400 (Error ''photo file is required''), s)"
  using assms by (simp add: put_inventory_id_photo_def photo_handler_def upload_single_no_file)



lemma post_register_blank:
  assumes "body_inventory_name req = None \<or>
           (\<exists>name. body_inventory_name req = Some name \<and> (\<forall>c \<in> set name. WhiteSpace c))"
  shows "post_register s req =
     Some (Json 400 (Error ''inventory_name is required''), upload_single s req)"
  using assms
  by (auto simp: post_register_def register_handler_def trim_Nil_iff split: option.splits)

lemma shop_no_orphans: "no_orphans shop"
  by (auto simp: no_orphans_def referenced_def shop_def widget_def gadget_def)

subsection \<open>\<open>Number\<close>, \<open>String\<close> and \<open>genId\<close>\<close>

lemma unat_digit_char:
  assumes "d < 10"
  shows "unat (digit_char d) = 0x30 + d"
proof -
  have "unat (digit_char d) = (0x30 + d) mod 2 ^ 16"
    by (simp only: digit_char_def unat_of_nat) simp
  with assms show ?thesis by simp
qed

lemma digit_value_digit_char: "d < 10 \<Longrightarrow> digit_value (digit_char d) = d"
  by (simp add: digit_value_def unat_digit_char)

lemma DecimalDigit_digit_char: "d < 10 \<Longrightarrow> DecimalDigit (digit_char d)"
  by (simp add: DecimalDigit_def word_le_nat_alt unat_digit_char)

lemma decimal_value_snoc:
  "decimal_value (s @ [c]) = 10 * decimal_value s + digit_value c"
  by (simp add: decimal_value_def)

lemma String_nonempty: "String n \<noteq> []"
  by (subst String.simps) simp

lemma String_digits: "list_all DecimalDigit (String n)"
proof (induction n rule: String.induct)
  case (1 n)
  show ?case
  proof (cases "n < 10")
    case True
    then show ?thesis
      by (subst String.simps) (simp add: DecimalDigit_digit_char)
  next
    case False
    with 1 show ?thesis
      by (subst String.simps) (simp add: DecimalDigit_digit_char)
  qed
qed

lemma decimal_value_String: "decimal_value (String n) = n"
proof (induction n rule: String.induct)
  case (1 n)
  show ?case
  proof (cases "n < 10")
    case True
    then show ?thesis
      by (subst String.simps) (simp add: decimal_value_def digit_value_digit_char)
  next
    case False
    with 1 have "decimal_value (String (n div 10)) = n div 10"
      by simp
    with False show ?thesis
      by (subst String.simps) (simp add: decimal_value_snoc digit_value_digit_char)
  qed
qed

lemma Number_String:
  "Number (String n) = (if n \<le> MAX_SAFE_INTEGER then Some n else None)"
  by (simp add: Number_def String_nonempty String_digits decimal_value_String)

lemma String_inject: "String m = String n \<Longrightarrow> m = n"
  by (metis decimal_value_String)

lemma String_Suc_0: "String (Suc 0) = ascii ''1''"
  by (subst String.simps) (simp add: digit_char_def ascii_def)

lemma Math_max0_Max: "Math_max0 ns = Max (insert 0 (set ns))"
proof -
  have "foldl max 0 ns = fold max ns 0"
    by (simp add: foldl_conv_fold max.commute)
  also have "\<dots> = Max (set (0 # ns))"
    by (simp only: Max.set_eq_fold)
  finally show ?thesis by (simp add: Math_max0_def)
qed

lemma id_numbers_Nil [simp]: "id_numbers [] = Some []"
  by (simp add: id_numbers_def)

lemma id_numbers_Cons:
  "id_numbers (i # items) =
     (case Number (item_id i) of
        None \<Rightarrow> None
      | Some n \<Rightarrow> map_option (Cons n) (id_numbers items))"
  by (simp add: id_numbers_def split: option.splits)

lemma id_numbers_append:
  "id_numbers xs = Some ms \<Longrightarrow> id_numbers ys = Some ns \<Longrightarrow> id_numbers (xs @ ys) = Some (ms @ ns)"
  by (induction xs arbitrary: ms) (auto simp: id_numbers_Cons split: option.splits)

lemma id_numbers_mem:
  "id_numbers items = Some ns \<Longrightarrow> i \<in> set items \<Longrightarrow>
   \<exists>n \<in> set ns. Number (item_id i) = Some n"
  by (induction items arbitrary: ns) (auto simp: id_numbers_Cons split: option.splits)

lemma id_numbers_safe:
  "id_numbers items = Some ns \<Longrightarrow> n \<in> set ns \<Longrightarrow> n \<le> MAX_SAFE_INTEGER"
proof (induction items arbitrary: ns)
  case Nil
  then show ?case by simp
next
  case (Cons i items)
  then show ?case
    by (auto simp: id_numbers_Cons Number_def split: option.splits if_splits)
qed

lemma genId_numbers:
  "id_numbers items = Some ns \<Longrightarrow> genId items = Some (String (Max (insert 0 (set ns)) + 1))"
  by (simp add: genId_def id_numbers_def Math_max0_Max)

lemma genId_None: "id_numbers items = None \<Longrightarrow> genId items = None"
  by (simp add: genId_def id_numbers_def)

lemma genId_fresh:
  assumes "genId items = Some new"
  shows "new \<notin> item_id ` set items"
proof
  assume "new \<in> item_id ` set items"
  then obtain i where i: "i \<in> set items" "item_id i = new" by auto
  from assms obtain ns where ns: "id_numbers items = Some ns"
    by (cases "id_numbers items") (auto simp: genId_None)
  let ?m = "Max (insert 0 (set ns))"
  from assms ns have new: "new = String (?m + 1)"
    by (simp add: genId_numbers)
  from id_numbers_mem [OF ns i(1)] obtain n where n: "n \<in> set ns" "Number (item_id i) = Some n"
    by auto
  have "n \<le> ?m" using n(1) by simp
  moreover have "Number (item_id i) = (if ?m + 1 \<le> MAX_SAFE_INTEGER then Some (?m + 1) else None)"
    using i(2) new by (simp add: Number_String)
  ultimately show False using n(2) by (auto split: if_splits)
qed

subsection \<open>Register calls\<close>

lemma trim_Nil [simp]: "trim [] = []"
  by (simp add: trim_def)

lemma post_register_valid:
  assumes "body_inventory_name req = Some name" and "trim name \<noteq> []"
      and "id_numbers (inventory s) = Some ns"
  shows "post_register s req =
     Some (Json 201 (Item (dto req
              \<lparr>item_id = String (Max (insert 0 (set ns)) + 1), inventory_name = name,
               description = (case body_description req of None \<Rightarrow> [] | Some d \<Rightarrow> d),
               photoFilename = map_option fst (req_file req)\<rparr>)),
           saveInventory ((upload_single s req)
             \<lparr>inventory := inventory s @
                [\<lparr>item_id = String (Max (insert 0 (set ns)) + 1), inventory_name = name,
                  description = (case body_description req of None \<Rightarrow> [] | Some d \<Rightarrow> d),
                  photoFilename = map_option fst (req_file req)\<rparr>]\<rparr>))"
proof -
  have "name \<noteq> []" using assms(2) by auto
  with assms show ?thesis
    by (simp add: post_register_def register_handler_def genId_numbers Let_def)
qed

lemma Max0_snoc:
  "Max (insert 0 (set (ns @ [Max (insert 0 (set ns)) + 1]))) = Max (insert (0::nat) (set ns)) + 1"
proof -
  let ?m = "Max (insert 0 (set ns))"
  have "insert 0 (set (ns @ [?m + 1])) = insert (?m + 1) (insert 0 (set ns))"
    by auto
  then have "Max (insert 0 (set (ns @ [?m + 1]))) = max (?m + 1) ?m"
    by (simp only: Max_insert [of "insert 0 (set ns)" "?m + 1"] finite_insert finite_set
        insert_not_empty not_False_eq_True)
  then show ?thesis by simp
qed

lemma upt_first: "[a + 1 ..< a + 1 + Suc n] = (a + 1) # [a + 1 + 1 ..< a + 1 + 1 + n]"
proof -
  have "[a + 1 ..< a + 1 + Suc n] = (a + 1) # [Suc (a + 1) ..< a + 1 + Suc n]"
    by (rule upt_conv_Cons) simp
  then show ?thesis by simp
qed

lemma register_all_ids:
  assumes "id_numbers (inventory s) = Some ns"
      and "distinct (map item_id (inventory s))"
      and "\<forall>r \<in> set reqs. valid_name (body_inventory_name r)"
      and "Max (insert 0 (set ns)) + length reqs \<le> MAX_SAFE_INTEGER"
  shows "\<exists>rs s' new. register_all s reqs = Some (rs, s') \<and> length rs = length reqs \<and>
           inventory s' = inventory s @ new \<and>
           map item_id new =
             map String [Max (insert 0 (set ns)) + 1 ..< Max (insert 0 (set ns)) + 1 + length reqs] \<and>
           id_numbers new =
             Some [Max (insert 0 (set ns)) + 1 ..< Max (insert 0 (set ns)) + 1 + length reqs] \<and>
           distinct (map item_id (inventory s'))"
  using assms
proof (induction reqs arbitrary: s ns)
  case Nil
  then show ?case by simp
next
  case (Cons req reqs)
  let ?m = "Max (insert 0 (set ns))"
  from Cons.prems(3) obtain name where name: "body_inventory_name req = Some name" "trim name \<noteq> []"
    by (auto simp: valid_name_def split: option.splits)
  let ?i = "\<lparr>item_id = String (?m + 1), inventory_name = name,
             description = (case body_description req of None \<Rightarrow> [] | Some d \<Rightarrow> d),
             photoFilename = map_option fst (req_file req)\<rparr>"
  let ?s1 = "saveInventory ((upload_single s req)\<lparr>inventory := inventory s @ [?i]\<rparr>)"
  have step: "post_register s req = Some (Json 201 (Item (dto req ?i)), ?s1)"
    by (rule post_register_valid [OF name Cons.prems(1)])
  have inv1: "inventory ?s1 = inventory s @ [?i]"
    by (simp add: saveInventory_def)
  have safe: "?m + 1 \<le> MAX_SAFE_INTEGER"
    using Cons.prems(4) by simp
  have num_i: "id_numbers [?i] = Some [?m + 1]"
    using safe by (simp add: id_numbers_Cons Number_String)
  have nums1: "id_numbers (inventory ?s1) = Some (ns @ [?m + 1])"
    unfolding inv1 by (rule id_numbers_append [OF Cons.prems(1) num_i])
  have "genId (inventory s) = Some (String (?m + 1))"
    by (rule genId_numbers [OF Cons.prems(1)])
  then have fresh: "String (?m + 1) \<notin> item_id ` set (inventory s)"
    by (rule genId_fresh)
  have dist1: "distinct (map item_id (inventory ?s1))"
    unfolding inv1 using Cons.prems(2) fresh by simp
  have m1: "Max (insert 0 (set (ns @ [?m + 1]))) = ?m + 1"
    by (rule Max0_snoc)
  have valid1: "\<forall>r \<in> set reqs. valid_name (body_inventory_name r)"
    using Cons.prems(3) by simp
  have bound1: "Max (insert 0 (set (ns @ [?m + 1]))) + length reqs \<le> MAX_SAFE_INTEGER"
    unfolding m1 using Cons.prems(4) by simp
  from Cons.IH [OF nums1 dist1 valid1 bound1] obtain rs s' new where
    ih: "register_all ?s1 reqs = Some (rs, s')" "length rs = length reqs"
      "inventory s' = inventory ?s1 @ new"
      "map item_id new = map String [?m + 1 + 1 ..< ?m + 1 + 1 + length reqs]"
      "id_numbers new = Some [?m + 1 + 1 ..< ?m + 1 + 1 + length reqs]"
      "distinct (map item_id (inventory s'))"
    unfolding m1 by blast
  have upt: "[?m + 1 ..< ?m + 1 + length (req # reqs)] =
      (?m + 1) # [?m + 1 + 1 ..< ?m + 1 + 1 + length reqs]"
    using upt_first [of "?m" "length reqs"] by simp
  have 1: "register_all s (req # reqs) = Some (Json 201 (Item (dto req ?i)) # rs, s')"
    using step ih(1) by simp
  have 2: "inventory s' = inventory s @ (?i # new)"
    using ih(3) inv1 by simp
  have 3: "map item_id (?i # new) = map String [?m + 1 ..< ?m + 1 + length (req # reqs)]"
    unfolding upt using ih(4) by simp
  have 4: "id_numbers (?i # new) = Some [?m + 1 ..< ?m + 1 + length (req # reqs)]"
    unfolding upt using id_numbers_append [OF num_i ih(5)] by simp
  have 5: "length (Json 201 (Item (dto req ?i)) # rs) = length (req # reqs)"
    using ih(2) by simp
  from 1 2 3 4 5 ih(6) show ?case by blast
qed

lemma Number_1: "Number (ascii ''1'') = Some 1"
  using Number_String [of 1] by (simp add: String_Suc_0 MAX_SAFE_INTEGER_def)

lemma String_2: "String 2 = ascii ''2''"
  by (subst String.simps) (simp add: digit_char_def ascii_def)

lemma String_3: "String 3 = ascii ''3''"
  by (subst String.simps) (simp add: digit_char_def ascii_def)

lemma String_4: "String 4 = ascii ''4''"
  by (subst String.simps) (simp add: digit_char_def ascii_def)

lemma Number_2: "Number (ascii ''2'') = Some 2"
  using Number_String [of 2] by (simp add: String_2 MAX_SAFE_INTEGER_def)

lemma shop_id_numbers: "id_numbers (inventory shop) = Some [1, 2]"
  by (simp add: shop_def id_numbers_Cons widget_def gadget_def Number_1 Number_2)

lemma valid_name_Sprocket: "valid_name (Some (ascii ''Sprocket''))"
  by (simp add: valid_name_def trim_Nil_iff ascii_def WhiteSpace_def)

lemma valid_name_Gizmo: "valid_name (Some (ascii ''Gizmo''))"
  by (simp add: valid_name_def trim_Nil_iff ascii_def WhiteSpace_def)

subsection \<open>Photo references\<close>

lemma referenced_photo_refs: "referenced items name \<longleftrightarrow> name \<in> set (photo_refs items)"
  by (induction items) (auto simp: referenced_def split: option.splits)

lemma set_photo_refs_mono:
  assumes "set ys \<subseteq> set xs"
  shows "set (photo_refs ys) \<subseteq> set (photo_refs xs)"
proof
  fix name
  assume "name \<in> set (photo_refs ys)"
  then have "referenced ys name" by (simp add: referenced_photo_refs)
  then have "referenced xs name" using assms by (auto simp: referenced_def)
  then show "name \<in> set (photo_refs xs)" by (simp add: referenced_photo_refs)
qed

lemma photo_refs_append: "photo_refs (xs @ ys) = photo_refs xs @ photo_refs ys"
  by (induction xs) (auto split: option.splits)

lemma findItem_photo_ref:
  "findItem xs k = Some i \<Longrightarrow> photoFilename i = Some name \<Longrightarrow> name \<in> set (photo_refs xs)"
  by (induction xs) (auto split: if_splits option.splits)

lemma photo_refs_store_found_same:
  "findItem xs k = Some i \<Longrightarrow> photoFilename i' = photoFilename i \<Longrightarrow>
   photo_refs (store_found k i' xs) = photo_refs xs"
  by (induction xs) (auto split: if_splits option.splits)

lemma set_photo_refs_store_found:
  "findItem xs k = Some i \<Longrightarrow> distinct (photo_refs xs) \<Longrightarrow>
   set (photo_refs (store_found k (i\<lparr>photoFilename := Some f\<rparr>) xs)) =
     insert f (set (photo_refs xs) - set_option (photoFilename i))"
proof (induction xs)
  case Nil
  then show ?case by simp
next
  case (Cons x xs)
  show ?case
  proof (cases "item_id x = k")
    case True
    with Cons.prems show ?thesis by (auto split: option.splits)
  next
    case False
    with Cons.prems have f: "findItem xs k = Some i" by simp
    from Cons.prems have d: "distinct (photo_refs xs)" by (auto split: option.splits)
    have "\<And>name. photoFilename x = Some name \<Longrightarrow> photoFilename i \<noteq> Some name"
      using Cons.prems(2) findItem_photo_ref [OF f] by auto
    with Cons.IH [OF f d] False show ?thesis by (auto split: option.splits)
  qed
qed

lemma distinct_photo_refs_store_found:
  "findItem xs k = Some i \<Longrightarrow> distinct (photo_refs xs) \<Longrightarrow> f \<notin> set (photo_refs xs) \<Longrightarrow>
   distinct (photo_refs (store_found k (i\<lparr>photoFilename := Some f\<rparr>) xs))"
proof (induction xs)
  case Nil
  then show ?case by simp
next
  case (Cons x xs)
  show ?case
  proof (cases "item_id x = k")
    case True
    with Cons.prems show ?thesis by (auto split: option.splits)
  next
    case False
    with Cons.prems have f: "findItem xs k = Some i" by simp
    from Cons.prems have d: "distinct (photo_refs xs)" and n: "f \<notin> set (photo_refs xs)"
      by (auto split: option.splits)
    from Cons.IH [OF f d n] set_photo_refs_store_found [OF f d, of f] Cons.prems False
    show ?thesis by (auto split: option.splits)
  qed
qed

lemma set_photo_refs_splice:
  "findIndex (\<lambda>i. item_id i = k) xs = Some n \<Longrightarrow> distinct (photo_refs xs) \<Longrightarrow>
   set (photo_refs (take n xs @ drop (Suc n) xs)) =
     set (photo_refs xs) - set_option (photoFilename (xs ! n))"
proof (induction xs arbitrary: n)
  case Nil
  then show ?case by simp
next
  case (Cons x xs)
  show ?case
  proof (cases "item_id x = k")
    case True
    with Cons.prems show ?thesis by (auto split: option.splits)
  next
    case False
    with Cons.prems obtain m where m: "findIndex (\<lambda>i. item_id i = k) xs = Some m" "n = Suc m"
      by auto
    from Cons.prems have d: "distinct (photo_refs xs)" by (auto split: option.splits)
    have "\<And>name. photoFilename x = Some name \<Longrightarrow> photoFilename (xs ! m) \<noteq> Some name"
      using Cons.prems(2) findItem_photo_ref [of xs k "xs ! m"] findIndex_Some [OF m(1)] by auto
    with Cons.IH [OF m(1) d] m(2) show ?thesis by (auto split: option.splits)
  qed
qed

lemma distinct_photo_refs_splice:
  "distinct (photo_refs xs) \<Longrightarrow> distinct (photo_refs (take n xs @ drop (Suc n) xs))"
proof (induction xs arbitrary: n)
  case Nil
  then show ?case by simp
next
  case (Cons x xs)
  from Cons.prems have d: "distinct (photo_refs xs)" by (auto split: option.splits)
  show ?case
  proof (cases n)
    case 0
    with d show ?thesis by simp
  next
    case (Suc m)
    have "set (take m xs @ drop (Suc m) xs) \<subseteq> set xs"
      using set_take_subset [of m xs] set_drop_subset [of "Suc m" xs] by auto
    then have "set (photo_refs (take m xs @ drop (Suc m) xs)) \<subseteq> set (photo_refs xs)"
      by (rule set_photo_refs_mono)
    with Cons.IH [OF d, of m] Cons.prems Suc show ?thesis by (auto split: option.splits)
  qed
qed

subsection \<open>The handlers keep a consistent state, apart from the early returns after an upload\<close>

lemma no_orphans_dom: "no_orphans s \<longleftrightarrow> set (photo_refs (inventory s)) = dom (photos s)"
  by (auto simp: no_orphans_def referenced_photo_refs)

lemma fresh_name_iff:
  "fresh_name s name \<longleftrightarrow> name \<notin> dom (photos s) \<and> name \<notin> set (photo_refs (inventory s))"
  by (auto simp: fresh_name_def referenced_photo_refs)

lemma saveInventory_inventory [simp]: "inventory (saveInventory s) = inventory s"
  by (simp add: saveInventory_def)

lemma saveInventory_photos [simp]: "photos (saveInventory s) = photos s"
  by (simp add: saveInventory_def)

lemma consistentD:
  assumes "consistent s"
  shows "distinct (photo_refs (inventory s))" and "[] \<notin> set (photo_refs (inventory s))"
    and "set (photo_refs (inventory s)) = dom (photos s)"
  using assms by (auto simp: consistent_def no_orphans_dom)

lemma consistent_put_inventory_id:
  assumes "consistent s"
  shows "consistent (snd (put_inventory_id s req))"
proof (cases "findItem (inventory s) (params_id req)")
  case None
  with assms show ?thesis by (simp add: put_inventory_id_def)
next
  case (Some i)
  let ?i' = "i\<lparr>inventory_name := (case body_inventory_name req of None \<Rightarrow> inventory_name i | Some v \<Rightarrow> v),
           description := (case body_description req of None \<Rightarrow> description i | Some v \<Rightarrow> v)\<rparr>"
  have "photo_refs (store_found (params_id req) ?i' (inventory s)) = photo_refs (inventory s)"
    by (rule photo_refs_store_found_same [OF Some]) simp
  with consistentD [OF assms] show ?thesis
    by (simp add: put_inventory_id_found [OF Some] consistent_def no_orphans_dom)
qed

lemma consistent_delete_inventory_id:
  assumes "consistent s"
  shows "consistent (snd (delete_inventory_id s req))"
proof (cases "findIndex (\<lambda>i. item_id i = params_id req) (inventory s)")
  case None
  with assms show ?thesis by (simp add: delete_inventory_id_def)
next
  case (Some n)
  let ?xs = "inventory s"
  let ?ys = "take n ?xs @ drop (Suc n) ?xs"
  note d = consistentD(1) [OF assms] and e = consistentD(2) [OF assms]
    and o = consistentD(3) [OF assms]
  have st: "set (photo_refs ?ys) = set (photo_refs ?xs) - set_option (photoFilename (?xs ! n))"
    by (rule set_photo_refs_splice [OF Some d])
  have dy: "distinct (photo_refs ?ys)"
    by (rule distinct_photo_refs_splice [OF d])
  have ne: "\<And>name. photoFilename (?xs ! n) = Some name \<Longrightarrow> name \<noteq> []"
    using findItem_photo_ref [of ?xs "params_id req" "?xs ! n"] findIndex_Some [OF Some] e
    by auto
  have ph: "dom (photos (unlink_photo (?xs ! n) (s\<lparr>inventory := ?ys\<rparr>))) =
      dom (photos s) - set_option (photoFilename (?xs ! n))"
    using ne by (auto simp: unlink_photo_photos split: option.splits if_splits)
  show ?thesis
    using st dy e o ph
    by (simp add: delete_inventory_id_found [OF Some] consistent_def no_orphans_dom)
qed

lemma consistent_put_inventory_id_photo:
  assumes "consistent s"
      and "findItem (inventory s) (params_id req) = Some i"
      and "\<forall>filename content. req_file req = Some (filename, content) \<longrightarrow>
             fresh_name s filename \<and> filename \<noteq> []"
  shows "consistent (snd (put_inventory_id_photo s req))"
proof (cases "req_file req")
  case None
  with assms show ?thesis by (simp add: put_inventory_id_photo_no_file)
next
  case (Some u)
  obtain filename content where u: "req_file req = Some (filename, content)"
    using Some by (cases u) simp
  with assms(3) have fr: "filename \<notin> dom (photos s)" "filename \<notin> set (photo_refs (inventory s))"
    and n: "filename \<noteq> []"
    by (simp_all add: fresh_name_iff)
  let ?xs = "inventory s"
  let ?ys = "store_found (params_id req) (i\<lparr>photoFilename := Some filename\<rparr>) ?xs"
  note d = consistentD(1) [OF assms(1)] and e = consistentD(2) [OF assms(1)]
    and o = consistentD(3) [OF assms(1)]
  have st: "set (photo_refs ?ys) = insert filename (set (photo_refs ?xs) - set_option (photoFilename i))"
    by (rule set_photo_refs_store_found [OF assms(2) d])
  have dy: "distinct (photo_refs ?ys)"
    by (rule distinct_photo_refs_store_found [OF assms(2) d fr(2)])
  have ne: "\<And>name. photoFilename i = Some name \<Longrightarrow> name \<noteq> [] \<and> name \<noteq> filename"
    using findItem_photo_ref [OF assms(2)] e fr(2) by auto
  have ph: "dom (photos (unlink_photo i (upload_single s req))) =
      insert filename (dom (photos s) - set_option (photoFilename i))"
    using ne u by (auto simp: unlink_photo_photos upload_single_photos split: option.splits if_splits)
  show ?thesis
    using st dy e o ph n
    by (auto simp: put_inventory_id_photo_found [OF assms(2) u] consistent_def no_orphans_dom)
qed

lemma consistent_post_register:
  assumes "consistent s"
      and "post_register s req = Some (r, s')" and "status r = 201"
      and "\<forall>filename content. req_file req = Some (filename, content) \<longrightarrow>
             fresh_name s filename \<and> filename \<noteq> []"
  shows "consistent s'"
proof -
  from assms(2,3) obtain name where name: "body_inventory_name req = Some name" "trim name \<noteq> []"
    by (auto simp: post_register_def register_handler_def Let_def split: option.splits if_splits)
  from assms(2) name obtain ns where ns: "id_numbers (inventory s) = Some ns"
    by (cases "id_numbers (inventory s)")
      (auto simp: post_register_def register_handler_def genId_None Let_def split: if_splits)
  let ?i = "\<lparr>item_id = String (Max (insert 0 (set ns)) + 1), inventory_name = name,
             description = (case body_description req of None \<Rightarrow> [] | Some d \<Rightarrow> d),
             photoFilename = map_option fst (req_file req)\<rparr>"
  have s': "s' = saveInventory ((upload_single s req)\<lparr>inventory := inventory s @ [?i]\<rparr>)"
    using post_register_valid [OF name ns] assms(2) by simp
  note d = consistentD(1) [OF assms(1)] and e = consistentD(2) [OF assms(1)]
    and o = consistentD(3) [OF assms(1)]
  show ?thesis
  proof (cases "req_file req")
    case None
    with d e o show ?thesis
      by (simp add: s' consistent_def no_orphans_dom photo_refs_append upload_single_photos)
  next
    case (Some u)
    obtain filename content where u: "req_file req = Some (filename, content)"
      using Some by (cases u) simp
    with assms(4) have "filename \<notin> dom (photos s)" "filename \<notin> set (photo_refs (inventory s))"
      "filename \<noteq> []"
      by (simp_all add: fresh_name_iff)
    with d e o u show ?thesis
      by (auto simp: s' consistent_def no_orphans_dom photo_refs_append upload_single_photos)
  qed
qed

lemma shop_consistent: "consistent shop"
  using shop_no_orphans gadget_photo_nonempty
  by (simp add: consistent_def shop_def widget_def gadget_def)

lemma empty_shop_consistent: "consistent empty_shop"
  by (simp add: consistent_def no_orphans_dom empty_shop_def)

subsection \<open>The handlers keep the ids distinct\<close>

lemma ids_put_inventory_id:
  "map item_id (inventory (snd (put_inventory_id s req))) = map item_id (inventory s)"
proof (cases "findItem (inventory s) (params_id req)")
  case None
  then show ?thesis by (simp add: put_inventory_id_def)
next
  case (Some i)
  show ?thesis
    using findItem_Some_id [OF Some]
    by (simp add: put_inventory_id_found [OF Some] store_found_ids)
qed

lemma ids_put_inventory_id_photo:
  "map item_id (inventory (snd (put_inventory_id_photo s req))) = map item_id (inventory s)"
proof (cases "findItem (inventory s) (params_id req)")
  case None
  then show ?thesis by (simp add: put_inventory_id_photo_unknown)
next
  case (Some i)
  show ?thesis
  proof (cases "req_file req")
    case None
    then show ?thesis by (simp add: put_inventory_id_photo_no_file [OF Some])
  next
    case (Some u)
    obtain filename content where u: "req_file req = Some (filename, content)"
      using Some by (cases u) simp
    show ?thesis
      using findItem_Some_id [OF \<open>findItem (inventory s) (params_id req) = Some i\<close>]
      by (simp add: put_inventory_id_photo_found [OF \<open>findItem (inventory s) (params_id req) = Some i\<close> u]
          store_found_ids)
  qed
qed

lemma distinct_ids_delete_inventory_id:
  assumes "distinct (map item_id (inventory s))"
  shows "distinct (map item_id (inventory (snd (delete_inventory_id s req))))"
proof (cases "findIndex (\<lambda>i. item_id i = params_id req) (inventory s)")
  case None
  with assms show ?thesis by (simp add: delete_inventory_id_def)
next
  case (Some n)
  have "inventory (snd (delete_inventory_id s req)) =
      filter (\<lambda>i. item_id i \<noteq> params_id req) (inventory s)"
    using splice_filter [OF assms Some] by (simp add: delete_inventory_id_found [OF Some])
  with assms show ?thesis by (simp add: distinct_map_filter)
qed

lemma distinct_ids_post_register:
  assumes "distinct (map item_id (inventory s))" and "post_register s req = Some (r, s')"
  shows "distinct (map item_id (inventory s'))"
proof (cases "valid_name (body_inventory_name req)")
  case False
  then have "body_inventory_name req = None \<or>
      (\<exists>name. body_inventory_name req = Some name \<and> (\<forall>c \<in> set name. WhiteSpace c))"
    by (auto simp: valid_name_def trim_Nil_iff split: option.splits)
  from post_register_blank [OF this, of s] assms(2) have "s' = upload_single s req"
    by simp
  with assms(1) show ?thesis by simp
next
  case True
  then obtain name where name: "body_inventory_name req = Some name" "trim name \<noteq> []"
    by (auto simp: valid_name_def split: option.splits)
  then have "name \<noteq> []" by auto
  with assms(2) name obtain new where new: "genId (inventory s) = Some new"
    and inv: "map item_id (inventory s') = map item_id (inventory s) @ [new]"
    by (auto simp: post_register_def register_handler_def Let_def split: option.splits)
  from genId_fresh [OF new] assms(1) show ?thesis by (simp add: inv)
qed

subsection \<open>The concrete inventory, from two register calls on the empty one\<close>

lemma valid_Widget: "trim (ascii ''Widget'') \<noteq> []"
  by (simp add: trim_Nil_iff ascii_def WhiteSpace_def)

lemma valid_Gadget: "trim (ascii ''Gadget'') \<noteq> []"
  by (simp add: trim_Nil_iff ascii_def WhiteSpace_def)

lemma String_Suc_Suc_0: "String (Suc (Suc 0)) = ascii ''2''"
  using String_2 by (simp add: numeral_2_eq_2)

lemma shop_from_register_calls:
  "register_all empty_shop
     [plain_request\<lparr>body_inventory_name := Some (ascii ''Widget'')\<rparr>,
      plain_request\<lparr>body_inventory_name := Some (ascii ''Gadget''),
        req_file := Some (gadget_photo, jpeg)\<rparr>] =
   Some ([Json 201 (Item \<lparr>view_id = ascii ''1'', view_inventory_name = ascii ''Widget'',
                          view_description = [], view_photo_url = None\<rparr>),
          Json 201 (Item \<lparr>view_id = ascii ''2'', view_inventory_name = ascii ''Gadget'',
                          view_description = [],
                          view_photo_url = Some (ascii ''http://localhost:3000/inventory/2/photo'')\<rparr>)],
         shop)"
proof -
  let ?reqW = "plain_request\<lparr>body_inventory_name := Some (ascii ''Widget'')\<rparr>"
  let ?reqG = "plain_request\<lparr>body_inventory_name := Some (ascii ''Gadget''),
        req_file := Some (gadget_photo, jpeg)\<rparr>"
  let ?s1 = "\<lparr>inventory = [widget], db_file = Some (JSON_stringify [widget]), photos = Map.empty\<rparr>"
  have w: "body_inventory_name ?reqW = Some (ascii ''Widget'')" by simp
  have g: "body_inventory_name ?reqG = Some (ascii ''Gadget'')" by simp
  have n0: "id_numbers (inventory empty_shop) = Some []"
    by (simp add: empty_shop_def)
  have n1: "id_numbers (inventory ?s1) = Some [1]"
    by (simp add: id_numbers_Cons widget_def Number_1)
  have 1: "post_register empty_shop ?reqW =
      Some (Json 201 (Item \<lparr>view_id = ascii ''1'', view_inventory_name = ascii ''Widget'',
                          view_description = [], view_photo_url = None\<rparr>), ?s1)"
    using post_register_valid [OF w valid_Widget n0]
    by (simp add: String_Suc_0 plain_request_def dto_def photoUrl_def truthy_def widget_def
        saveInventory_def upload_single_def empty_shop_def)
  have 2: "post_register ?s1 ?reqG =
      Some (Json 201 (Item \<lparr>view_id = ascii ''2'', view_inventory_name = ascii ''Gadget'',
                          view_description = [],
                          view_photo_url = Some (ascii ''http://localhost:3000/inventory/2/photo'')\<rparr>),
            shop)"
    using post_register_valid [OF g valid_Gadget n1] gadget_photo_nonempty
    by (simp add: String_Suc_Suc_0 plain_request_def dto_def photoUrl_def truthy_def gadget_def
        saveInventory_def upload_single_def shop_def ascii_def)
  from 1 2 show ?thesis by simp
qed

section \<open>The claims\<close>

subsection \<open>Loading the snapshot\<close>

text \<open>
  C7. At process start the inventory is what \<open>loadInventory\<close> returns for the snapshot
  file: the empty array when the file cannot be read, the empty array when its text
  does not parse (no error is raised for a corrupt file), and the parsed array
  otherwise.
\<close>

theorem loadInventory_defaults_to_empty:
  "inventory (start JSON_parse content dir) = loadInventory JSON_parse content \<and>
   loadInventory JSON_parse None = [] \<and>
   (JSON_parse text = None \<longrightarrow> loadInventory JSON_parse (Some text) = []) \<and>
   (JSON_parse text = Some items \<longrightarrow> loadInventory JSON_parse (Some text) = items)"
  by (simp add: start_def loadInventory_def)

text \<open>
  Witness: a parser that accepts the text \<open>[]\<close> alone, on the corrupt text \<open>[{oops\<close>
  and on a missing file.
\<close>

theorem loadInventory_defaults_to_empty_witness:
  "loadInventory (\<lambda>t. if t = ascii ''[]'' then Some [] else None) (Some (ascii ''[{oops'')) = [] \<and>
   loadInventory (\<lambda>t. if t = ascii ''[]'' then Some [] else None) None = []"
proof -
  let ?P = "\<lambda>t. if t = ascii ''[]'' then Some [] else (None :: item list option)"
  have h: "?P (ascii ''[{oops'') = None"
    by (simp add: ascii_def)
  from loadInventory_defaults_to_empty [of ?P None Map.empty "ascii ''[{oops''" "[]"] h
  show ?thesis by (simp add: ascii_def)
qed

subsection \<open>Id assignment\<close>

text \<open>
  C5. On the empty inventory \<open>genId\<close> gives \<open>"1"\<close>; on an inventory with numeric
  ids it gives the decimal numeral of their maximum plus one, and a register call with
  a valid name appends one record with that id, which no record had before. Hence a
  sequence of register calls with valid names on an inventory with distinct numeric
  ids appends records with the ids max + 1, max + 2, ... in this order (each the
  maximum at call time plus one, so strictly increasing), and the ids of the resulting
  inventory are distinct. The ids stay below \<open>Number.MAX_SAFE_INTEGER\<close>, where the
  arithmetic of the source is exact.
\<close>

theorem genId_is_max_plus_one:
  "genId [] = Some (ascii ''1'') \<and>
   (id_numbers items = Some ns \<longrightarrow>
      genId items = Some (String (Max (insert 0 (set ns)) + 1))) \<and>
   (id_numbers (inventory s) = Some ns \<longrightarrow> valid_name (body_inventory_name req) \<longrightarrow>
      (\<exists>r s' i. post_register s req = Some (r, s') \<and> status r = 201 \<and>
         inventory s' = inventory s @ [i] \<and>
         item_id i = String (Max (insert 0 (set ns)) + 1) \<and>
         item_id i \<notin> item_id ` set (inventory s))) \<and>
   (id_numbers (inventory s) = Some ns \<longrightarrow> distinct (map item_id (inventory s)) \<longrightarrow>
    (\<forall>r \<in> set reqs. valid_name (body_inventory_name r)) \<longrightarrow>
    Max (insert 0 (set ns)) + length reqs \<le> MAX_SAFE_INTEGER \<longrightarrow>
      (\<exists>rs s' new. register_all s reqs = Some (rs, s') \<and> length rs = length reqs \<and>
         inventory s' = inventory s @ new \<and>
         map item_id new =
           map String [Max (insert 0 (set ns)) + 1 ..< Max (insert 0 (set ns)) + 1 + length reqs] \<and>
         id_numbers new =
           Some [Max (insert 0 (set ns)) + 1 ..< Max (insert 0 (set ns)) + 1 + length reqs] \<and>
         distinct (map item_id (inventory s'))))"
proof (intro conjI impI)
  show "genId [] = Some (ascii ''1'')"
    using genId_numbers [of "[]" "[]"] by (simp add: String_Suc_0)
next
  assume "id_numbers items = Some ns"
  then show "genId items = Some (String (Max (insert 0 (set ns)) + 1))"
    by (rule genId_numbers)
next
  assume ns: "id_numbers (inventory s) = Some ns"
    and v: "valid_name (body_inventory_name req)"
  from v obtain name where name: "body_inventory_name req = Some name" "trim name \<noteq> []"
    by (auto simp: valid_name_def split: option.splits)
  let ?i = "\<lparr>item_id = String (Max (insert 0 (set ns)) + 1), inventory_name = name,
             description = (case body_description req of None \<Rightarrow> [] | Some d \<Rightarrow> d),
             photoFilename = map_option fst (req_file req)\<rparr>"
  let ?s1 = "saveInventory ((upload_single s req)\<lparr>inventory := inventory s @ [?i]\<rparr>)"
  have step: "post_register s req = Some (Json 201 (Item (dto req ?i)), ?s1)"
    by (rule post_register_valid [OF name ns])
  have fresh: "item_id ?i \<notin> item_id ` set (inventory s)"
    using genId_fresh [OF genId_numbers [OF ns]] by simp
  have "inventory ?s1 = inventory s @ [?i]"
    by (simp add: saveInventory_def)
  with step fresh show "\<exists>r s' i. post_register s req = Some (r, s') \<and> status r = 201 \<and>
         inventory s' = inventory s @ [i] \<and>
         item_id i = String (Max (insert 0 (set ns)) + 1) \<and>
         item_id i \<notin> item_id ` set (inventory s)"
    by (intro exI [of _ "Json 201 (Item (dto req ?i))"] exI [of _ ?s1] exI [of _ ?i]) simp
next
  assume "id_numbers (inventory s) = Some ns" "distinct (map item_id (inventory s))"
    "\<forall>r \<in> set reqs. valid_name (body_inventory_name r)"
    "Max (insert 0 (set ns)) + length reqs \<le> MAX_SAFE_INTEGER"
  then show "\<exists>rs s' new. register_all s reqs = Some (rs, s') \<and> length rs = length reqs \<and>
         inventory s' = inventory s @ new \<and>
         map item_id new =
           map String [Max (insert 0 (set ns)) + 1 ..< Max (insert 0 (set ns)) + 1 + length reqs] \<and>
         id_numbers new =
           Some [Max (insert 0 (set ns)) + 1 ..< Max (insert 0 (set ns)) + 1 + length reqs] \<and>
         distinct (map item_id (inventory s'))"
    by (rule register_all_ids)
qed

text \<open>
  Witness: two register calls on the inventory with the ids 1 and 2 append records
  with the ids 3 and 4.
\<close>

theorem genId_is_max_plus_one_witness:
  "\<exists>rs s' new.
     register_all shop
       [plain_request\<lparr>body_inventory_name := Some (ascii ''Sprocket'')\<rparr>,
        plain_request\<lparr>body_inventory_name := Some (ascii ''Gizmo''),
          req_file := Some (new_photo, png)\<rparr>] = Some (rs, s') \<and>
     inventory s' = inventory shop @ new \<and>
     map item_id new = [ascii ''3'', ascii ''4''] \<and>
     distinct (map item_id (inventory s'))"
proof -
  let ?reqs = "[plain_request\<lparr>body_inventory_name := Some (ascii ''Sprocket'')\<rparr>,
        plain_request\<lparr>body_inventory_name := Some (ascii ''Gizmo''),
          req_file := Some (new_photo, png)\<rparr>]"
  have v: "\<forall>r \<in> set ?reqs. valid_name (body_inventory_name r)"
    by (simp add: valid_name_Sprocket valid_name_Gizmo)
  have m: "Max (insert 0 (set [1, 2 :: nat])) = 2"
    by simp
  have b: "Max (insert 0 (set [1, 2 :: nat])) + length ?reqs \<le> MAX_SAFE_INTEGER"
    unfolding m by (simp add: MAX_SAFE_INTEGER_def)
  have u: "[Max (insert 0 (set [1, 2 :: nat])) + 1 ..<
       Max (insert 0 (set [1, 2 :: nat])) + 1 + length ?reqs] = [3, 4]"
    unfolding m by (simp add: upt_rec)
  from genId_is_max_plus_one [of "inventory shop" "[1, 2]" shop plain_request ?reqs]
    shop_id_numbers shop_distinct v b
  obtain rs s' new where
    "register_all shop ?reqs = Some (rs, s')" "inventory s' = inventory shop @ new"
    "map item_id new = map String [Max (insert 0 (set [1, 2 :: nat])) + 1 ..<
       Max (insert 0 (set [1, 2 :: nat])) + 1 + length ?reqs]"
    "distinct (map item_id (inventory s'))"
    by blast
  then show ?thesis
    unfolding u by (intro exI [of _ rs] exI [of _ s'] exI [of _ new]) (simp add: String_3 String_4)
qed

subsection \<open>Registering with a blank name\<close>

text \<open>
  C1. The no-orphan invariant does not survive every operation. The concrete inventory
  has no orphan; a register call with the name of three spaces and a photo is refused
  with status 400, and the state it leaves holds the uploaded file, which no record
  references. (The lemmas \<open>consistent_post_register\<close>,
  \<open>consistent_put_inventory_id\<close>, \<open>consistent_delete_inventory_id\<close> and
  \<open>consistent_put_inventory_id_photo\<close> above show that the handlers keep the
  invariant on every other path: a register call that creates a record, an update, a
  delete, and a photo upload for a known id.)
\<close>

theorem blank_register_with_photo_leaves_orphan:
  "no_orphans shop \<and>
   post_register shop
     (plain_request\<lparr>body_inventory_name := Some (ascii ''   ''),
        req_file := Some (new_photo, png)\<rparr>) =
     Some (Json 400 (Error ''inventory_name is required''),
           shop\<lparr>photos := (photos shop)(new_photo \<mapsto> png)\<rparr>) \<and>
   orphan (shop\<lparr>photos := (photos shop)(new_photo \<mapsto> png)\<rparr>) new_photo \<and>
   \<not> no_orphans (shop\<lparr>photos := (photos shop)(new_photo \<mapsto> png)\<rparr>)"
proof -
  let ?req = "plain_request\<lparr>body_inventory_name := Some (ascii ''   ''),
        req_file := Some (new_photo, png)\<rparr>"
  let ?s' = "shop\<lparr>photos := (photos shop)(new_photo \<mapsto> png)\<rparr>"
  have "body_inventory_name ?req = None \<or>
      (\<exists>name. body_inventory_name ?req = Some name \<and> (\<forall>c \<in> set name. WhiteSpace c))"
    using blanks_WhiteSpace by simp
  then have 1: "post_register shop ?req =
      Some (Json 400 (Error ''inventory_name is required''), upload_single shop ?req)"
    by (rule post_register_blank)
  have 2: "upload_single shop ?req = ?s'"
    by (simp add: upload_single_def)
  have 3: "orphan ?s' new_photo"
    using shop_fresh_new_photo by (simp add: orphan_def fresh_name_def)
  then have 4: "\<not> no_orphans ?s'"
    by (auto simp: no_orphans_def orphan_def)
  from 1 2 3 4 shop_no_orphans show ?thesis by simp
qed

text \<open>
  C2. A register call with an empty or blank name and a photo is a validation failure
  and adds no record, but it is not free of side effects: the file that multer wrote
  before the handler ran is in the directory afterwards.
\<close>

theorem blank_register_with_photo_creates_file:
  "post_register empty_shop
     (plain_request\<lparr>body_inventory_name := Some [], req_file := Some (new_photo, jpeg)\<rparr>) =
     Some (Json 400 (Error ''inventory_name is required''),
           empty_shop\<lparr>photos := [new_photo \<mapsto> jpeg]\<rparr>) \<and>
   post_register empty_shop
     (plain_request\<lparr>body_inventory_name := Some (ascii ''   ''),
        req_file := Some (new_photo, jpeg)\<rparr>) =
     Some (Json 400 (Error ''inventory_name is required''),
           empty_shop\<lparr>photos := [new_photo \<mapsto> jpeg]\<rparr>) \<and>
   ValidationError (Json 400 (Error ''inventory_name is required'')) \<and>
   photos empty_shop new_photo = None \<and>
   photos (empty_shop\<lparr>photos := [new_photo \<mapsto> jpeg]\<rparr>) new_photo = Some jpeg"
proof -
  let ?reqA = "plain_request\<lparr>body_inventory_name := Some [], req_file := Some (new_photo, jpeg)\<rparr>"
  let ?reqB = "plain_request\<lparr>body_inventory_name := Some (ascii ''   ''),
        req_file := Some (new_photo, jpeg)\<rparr>"
  have "body_inventory_name ?reqA = None \<or>
      (\<exists>name. body_inventory_name ?reqA = Some name \<and> (\<forall>c \<in> set name. WhiteSpace c))"
    by simp
  then have 1: "post_register empty_shop ?reqA =
      Some (Json 400 (Error ''inventory_name is required''), upload_single empty_shop ?reqA)"
    by (rule post_register_blank)
  have "body_inventory_name ?reqB = None \<or>
      (\<exists>name. body_inventory_name ?reqB = Some name \<and> (\<forall>c \<in> set name. WhiteSpace c))"
    using blanks_WhiteSpace by simp
  then have 2: "post_register empty_shop ?reqB =
      Some (Json 400 (Error ''inventory_name is required''), upload_single empty_shop ?reqB)"
    by (rule post_register_blank)
  have 3: "upload_single empty_shop ?reqA = empty_shop\<lparr>photos := [new_photo \<mapsto> jpeg]\<rparr>"
    by (simp add: upload_single_def empty_shop_def)
  have 4: "upload_single empty_shop ?reqB = empty_shop\<lparr>photos := [new_photo \<mapsto> jpeg]\<rparr>"
    by (simp add: upload_single_def empty_shop_def)
  have 5: "photos empty_shop new_photo = None"
    by (simp add: empty_shop_def)
  from 1 2 3 4 5 show ?thesis by (simp add: ValidationError_def)
qed

subsection \<open>Updating a record\<close>

text \<open>
  C6. \<open>PUT /inventory/:id\<close> on an existing record assigns only the body fields that
  are present: the record found under the id afterwards has the supplied name and
  description and keeps every field that was not supplied, its id and its photo
  reference; with neither field supplied the record and the whole array are unchanged
  and the response shows the unmodified record (the snapshot is written again, so the
  whole state is unchanged when the file already held the array). Records under other
  ids, the order of the array and the photo files are not touched.
\<close>

theorem update_applies_supplied_fields_only:
  assumes "findItem (inventory s) (params_id req) = Some i"
  shows "\<exists>i'. fst (put_inventory_id s req) = Json 200 (Item (dto req i')) \<and>
           findItem (inventory (snd (put_inventory_id s req))) (params_id req) = Some i' \<and>
           item_id i' = item_id i \<and> photoFilename i' = photoFilename i \<and>
           inventory_name i' =
             (case body_inventory_name req of None \<Rightarrow> inventory_name i | Some v \<Rightarrow> v) \<and>
           description i' =
             (case body_description req of None \<Rightarrow> description i | Some v \<Rightarrow> v) \<and>
           (body_inventory_name req = None \<and> body_description req = None \<longrightarrow>
              i' = i \<and> inventory (snd (put_inventory_id s req)) = inventory s) \<and>
           (body_inventory_name req = None \<and> body_description req = None \<and>
            db_file s = Some (JSON_stringify (inventory s)) \<longrightarrow>
              snd (put_inventory_id s req) = s) \<and>
           (\<forall>j. j \<noteq> params_id req \<longrightarrow>
              findItem (inventory (snd (put_inventory_id s req))) j = findItem (inventory s) j) \<and>
           map item_id (inventory (snd (put_inventory_id s req))) = map item_id (inventory s) \<and>
           photos (snd (put_inventory_id s req)) = photos s"
proof -
  let ?i' = "i\<lparr>inventory_name := (case body_inventory_name req of None \<Rightarrow> inventory_name i | Some v \<Rightarrow> v),
           description := (case body_description req of None \<Rightarrow> description i | Some v \<Rightarrow> v)\<rparr>"
  have k: "item_id ?i' = params_id req"
    using findItem_Some_id [OF assms] by simp
  have r: "put_inventory_id s req =
     (Json 200 (Item (dto req ?i')),
      saveInventory (s\<lparr>inventory := store_found (params_id req) ?i' (inventory s)\<rparr>))"
    by (rule put_inventory_id_found [OF assms])
  have inv: "inventory (snd (put_inventory_id s req)) = store_found (params_id req) ?i' (inventory s)"
    by (simp add: r saveInventory_def)
  have f: "findItem (inventory (snd (put_inventory_id s req))) (params_id req) = Some ?i'"
    unfolding inv by (rule findItem_store_found_same [OF assms k])
  have o: "\<forall>j. j \<noteq> params_id req \<longrightarrow>
      findItem (inventory (snd (put_inventory_id s req))) j = findItem (inventory s) j"
    unfolding inv using findItem_store_found_other [OF k] by blast
  have m: "map item_id (inventory (snd (put_inventory_id s req))) = map item_id (inventory s)"
    unfolding inv by (rule store_found_ids [OF k])
  have e: "body_inventory_name req = None \<and> body_description req = None \<longrightarrow>
      ?i' = i \<and> inventory (snd (put_inventory_id s req)) = inventory s"
    unfolding inv using store_found_noop [OF assms] by simp
  have p: "photos (snd (put_inventory_id s req)) = photos s"
    by (simp add: r saveInventory_def)
  have n: "body_inventory_name req = None \<and> body_description req = None \<and>
      db_file s = Some (JSON_stringify (inventory s)) \<longrightarrow> snd (put_inventory_id s req) = s"
    using store_found_noop [OF assms] by (simp add: r saveInventory_def)
  have "fst (put_inventory_id s req) = Json 200 (Item (dto req ?i'))"
    by (simp add: r)
  with f o m e p n show ?thesis
    by (intro exI [of _ ?i']) simp
qed

text \<open>Witness: only the description of item 2 is supplied; its name stays Gadget.\<close>

theorem update_applies_supplied_fields_only_witness:
  "\<exists>i'. findItem (inventory (snd (put_inventory_id shop
            (plain_request\<lparr>params_id := ascii ''2'', body_description := Some (ascii ''x'')\<rparr>))))
          (ascii ''2'') = Some i' \<and>
        inventory_name i' = ascii ''Gadget'' \<and> description i' = ascii ''x''"
proof -
  let ?req = "plain_request\<lparr>params_id := ascii ''2'', body_description := Some (ascii ''x'')\<rparr>"
  have a: "findItem (inventory shop) (params_id ?req) = Some gadget"
    by (simp add: shop_find_gadget)
  from update_applies_supplied_fields_only [OF a] obtain i' where
    "findItem (inventory (snd (put_inventory_id shop ?req))) (params_id ?req) = Some i'"
    "inventory_name i' =
       (case body_inventory_name ?req of None \<Rightarrow> inventory_name gadget | Some v \<Rightarrow> v)"
    "description i' = (case body_description ?req of None \<Rightarrow> description gadget | Some v \<Rightarrow> v)"
    by blast
  then show ?thesis
    by (intro exI [of _ i']) (simp add: plain_request_def gadget_def)
qed

text \<open>
  C8. The name rule of the register handler is not applied by the update handler: on an
  existing record, an update whose \<open>inventory_name\<close> is empty or consists of white
  space only succeeds with status 200, stores that value as the name of the record
  and writes the snapshot, although the value is not a valid name and a register call
  with the same body is refused with status 400.
\<close>

theorem update_accepts_blank_name:
  assumes "findItem (inventory s) (params_id req) = Some i"
      and "body_inventory_name req = Some name"
      and "\<forall>c \<in> set name. WhiteSpace c"
  shows "status (fst (put_inventory_id s req)) = 200 \<and>
         (\<exists>i'. findItem (inventory (snd (put_inventory_id s req))) (params_id req) = Some i' \<and>
               inventory_name i' = name) \<and>
         db_file (snd (put_inventory_id s req)) =
           Some (JSON_stringify (inventory (snd (put_inventory_id s req)))) \<and>
         \<not> valid_name (Some name) \<and>
         (\<exists>st. post_register s req = Some (Json 400 (Error ''inventory_name is required''), st))"
proof -
  have t: "trim name = []"
    using assms(3) by (simp add: trim_Nil_iff)
  let ?i' = "i\<lparr>inventory_name := name,
           description := (case body_description req of None \<Rightarrow> description i | Some v \<Rightarrow> v)\<rparr>"
  have k: "item_id ?i' = params_id req"
    using findItem_Some_id [OF assms(1)] by simp
  have r: "put_inventory_id s req =
     (Json 200 (Item (dto req ?i')),
      saveInventory (s\<lparr>inventory := store_found (params_id req) ?i' (inventory s)\<rparr>))"
    using put_inventory_id_found [OF assms(1)] assms(2) by simp
  have f: "findItem (inventory (snd (put_inventory_id s req))) (params_id req) = Some ?i'"
    using findItem_store_found_same [OF assms(1) k] by (simp add: r saveInventory_def)
  have d: "db_file (snd (put_inventory_id s req)) =
           Some (JSON_stringify (inventory (snd (put_inventory_id s req))))"
    by (simp add: r saveInventory_def)
  have g: "post_register s req =
      Some (Json 400 (Error ''inventory_name is required''), upload_single s req)"
    using assms(2) t by (simp add: post_register_def register_handler_def)
  have "status (fst (put_inventory_id s req)) = 200"
    by (simp add: r)
  moreover have "\<exists>i'. findItem (inventory (snd (put_inventory_id s req))) (params_id req) = Some i' \<and>
               inventory_name i' = name"
    using f by (intro exI [of _ ?i']) simp
  moreover have "\<not> valid_name (Some name)"
    using t by (simp add: valid_name_def)
  ultimately show ?thesis using d g by blast
qed

text \<open>Witness: item 1 is renamed to three spaces.\<close>

theorem update_accepts_blank_name_witness:
  "status (fst (put_inventory_id shop
      (plain_request\<lparr>params_id := ascii ''1'', body_inventory_name := Some (ascii ''   '')\<rparr>))) = 200 \<and>
   (\<exists>i'. findItem (inventory (snd (put_inventory_id shop
      (plain_request\<lparr>params_id := ascii ''1'', body_inventory_name := Some (ascii ''   '')\<rparr>))))
      (ascii ''1'') = Some i' \<and> inventory_name i' = ascii ''   '')"
proof -
  let ?req = "plain_request\<lparr>params_id := ascii ''1'', body_inventory_name := Some (ascii ''   '')\<rparr>"
  have a: "findItem (inventory shop) (params_id ?req) = Some widget"
    by (simp add: shop_find_widget)
  have b: "body_inventory_name ?req = Some (ascii ''   '')"
    by simp
  from update_accepts_blank_name [OF a b blanks_WhiteSpace] show ?thesis
    by simp
qed

subsection \<open>Deleting a record\<close>

text \<open>
  C4. In an inventory whose ids are distinct, \<open>DELETE /inventory/:id\<close> on an existing
  id answers \<open>Deleted\<close> and removes the record: a following get of the id and of its
  photo is not found, the file that the record referenced is no longer in the
  directory, the other records stay as they were and in their order, and a second
  delete of the same id is not found and changes nothing. A delete of an id that is
  not in the inventory is not found and leaves the state unchanged.
\<close>

theorem delete_removes_record_and_photo:
  "(distinct (map item_id (inventory s)) \<longrightarrow> findItem (inventory s) (params_id req) = Some i \<longrightarrow>
      fst (delete_inventory_id s req) = Json 200 (Message ''Deleted'') \<and>
      NotFound (get_inventory_id (snd (delete_inventory_id s req)) req) \<and>
      NotFound (get_inventory_id_photo (snd (delete_inventory_id s req)) req) \<and>
      (\<forall>name. photoFilename i = Some name \<longrightarrow> name \<noteq> [] \<longrightarrow>
         photos (snd (delete_inventory_id s req)) name = None) \<and>
      inventory (snd (delete_inventory_id s req)) =
        filter (\<lambda>x. item_id x \<noteq> params_id req) (inventory s) \<and>
      delete_inventory_id (snd (delete_inventory_id s req)) req =
        (Json 404 (Error ''Not found''), snd (delete_inventory_id s req))) \<and>
   (findItem (inventory s) (params_id req) = None \<longrightarrow>
      delete_inventory_id s req = (Json 404 (Error ''Not found''), s))"
proof (intro conjI impI)
  assume d: "distinct (map item_id (inventory s))"
    and f: "findItem (inventory s) (params_id req) = Some i"
  from f obtain n where n: "findIndex (\<lambda>i. item_id i = params_id req) (inventory s) = Some n"
    using findIndex_None_iff [of "params_id req" "inventory s"] by (cases "findIndex (\<lambda>i. item_id i = params_id req) (inventory s)") auto
  have i: "inventory s ! n = i"
    using findIndex_Some [OF n] f by simp
  let ?s' = "snd (delete_inventory_id s req)"
  have r: "delete_inventory_id s req =
     (Json 200 (Message ''Deleted''),
      saveInventory (unlink_photo i
        (s\<lparr>inventory := take n (inventory s) @ drop (Suc n) (inventory s)\<rparr>)))"
    using delete_inventory_id_found [OF n] i by simp
  have inv: "inventory ?s' = take n (inventory s) @ drop (Suc n) (inventory s)"
    by (simp add: r saveInventory_def)
  have gone: "findItem (inventory ?s') (params_id req) = None"
    unfolding inv by (rule findItem_splice [OF d n])
  show "fst (delete_inventory_id s req) = Json 200 (Message ''Deleted'')"
    by (simp add: r)
  show "NotFound (get_inventory_id ?s' req)"
    using gone by (simp add: get_inventory_id_def NotFound_def)
  show "NotFound (get_inventory_id_photo ?s' req)"
    using gone by (simp add: get_inventory_id_photo_def NotFound_def)
  show "\<forall>name. photoFilename i = Some name \<longrightarrow> name \<noteq> [] \<longrightarrow> photos ?s' name = None"
    by (simp add: r saveInventory_def unlink_photo_photos)
  show "inventory ?s' = filter (\<lambda>x. item_id x \<noteq> params_id req) (inventory s)"
    unfolding inv by (rule splice_filter [OF d n])
  show "delete_inventory_id ?s' req = (Json 404 (Error ''Not found''), ?s')"
    by (rule delete_inventory_id_unknown [OF gone])
next
  assume "findItem (inventory s) (params_id req) = None"
  then show "delete_inventory_id s req = (Json 404 (Error ''Not found''), s)"
    by (rule delete_inventory_id_unknown)
qed

text \<open>
  Witness: item 2 and its photo are deleted, item 1 remains; the unknown id 7 is not
  found.
\<close>

theorem delete_removes_record_and_photo_witness:
  "fst (delete_inventory_id shop (plain_request\<lparr>params_id := ascii ''2''\<rparr>)) =
     Json 200 (Message ''Deleted'') \<and>
   NotFound (get_inventory_id (snd (delete_inventory_id shop (plain_request\<lparr>params_id := ascii ''2''\<rparr>)))
     (plain_request\<lparr>params_id := ascii ''2''\<rparr>)) \<and>
   photos (snd (delete_inventory_id shop (plain_request\<lparr>params_id := ascii ''2''\<rparr>))) gadget_photo = None \<and>
   inventory (snd (delete_inventory_id shop (plain_request\<lparr>params_id := ascii ''2''\<rparr>))) = [widget] \<and>
   delete_inventory_id shop (plain_request\<lparr>params_id := ascii ''7''\<rparr>) =
     (Json 404 (Error ''Not found''), shop)"
proof -
  let ?req = "plain_request\<lparr>params_id := ascii ''2''\<rparr>"
  let ?reqB = "plain_request\<lparr>params_id := ascii ''7''\<rparr>"
  have a: "findItem (inventory shop) (params_id ?req) = Some gadget"
    by (simp add: shop_find_gadget)
  have b: "findItem (inventory shop) (params_id ?reqB) = None"
    by (simp add: shop_find_none)
  have c: "photoFilename gadget = Some gadget_photo"
    by (simp add: gadget_def)
  have e: "filter (\<lambda>x. item_id x \<noteq> params_id ?req) (inventory shop) = [widget]"
    by (simp add: shop_def widget_def gadget_def ascii_def)
  from delete_removes_record_and_photo [of shop ?req gadget] shop_distinct a c e
    gadget_photo_nonempty
  have "fst (delete_inventory_id shop ?req) = Json 200 (Message ''Deleted'') \<and>
      NotFound (get_inventory_id (snd (delete_inventory_id shop ?req)) ?req) \<and>
      photos (snd (delete_inventory_id shop ?req)) gadget_photo = None \<and>
      inventory (snd (delete_inventory_id shop ?req)) = [widget]"
    by simp
  moreover from delete_removes_record_and_photo [of shop ?reqB gadget] b
  have "delete_inventory_id shop ?reqB = (Json 404 (Error ''Not found''), shop)"
    by simp
  ultimately show ?thesis by simp
qed

subsection \<open>Replacing a photo\<close>

text \<open>
  C9. A photo upload for an id that is not in the inventory is answered with status 404
  and leaves the array and the snapshot file as they were, but multer has already
  written the uploaded bytes under a new name: the file stays in the directory, and no
  record references it.
\<close>

theorem photo_for_unknown_id_leaves_file:
  assumes "findItem (inventory s) (params_id req) = None"
      and "req_file req = Some (filename, content)"
      and "fresh_name s filename"
  shows "NotFound (fst (put_inventory_id_photo s req)) \<and>
         inventory (snd (put_inventory_id_photo s req)) = inventory s \<and>
         db_file (snd (put_inventory_id_photo s req)) = db_file s \<and>
         photos s filename = None \<and>
         photos (snd (put_inventory_id_photo s req)) = (photos s)(filename \<mapsto> content) \<and>
         orphan (snd (put_inventory_id_photo s req)) filename"
  using assms
  by (simp add: put_inventory_id_photo_unknown upload_single_def NotFound_def orphan_def
      fresh_name_def)

text \<open>Witness: a PNG is uploaded for the unknown id 7.\<close>

theorem photo_for_unknown_id_leaves_file_witness:
  "NotFound (fst (put_inventory_id_photo shop
      (plain_request\<lparr>params_id := ascii ''7'', req_file := Some (new_photo, png)\<rparr>))) \<and>
   photos (snd (put_inventory_id_photo shop
      (plain_request\<lparr>params_id := ascii ''7'', req_file := Some (new_photo, png)\<rparr>))) new_photo
     = Some png \<and>
   orphan (snd (put_inventory_id_photo shop
      (plain_request\<lparr>params_id := ascii ''7'', req_file := Some (new_photo, png)\<rparr>))) new_photo"
proof -
  let ?req = "plain_request\<lparr>params_id := ascii ''7'', req_file := Some (new_photo, png)\<rparr>"
  have a: "findItem (inventory shop) (params_id ?req) = None"
    by (simp add: shop_find_none)
  have b: "req_file ?req = Some (new_photo, png)"
    by simp
  from photo_for_unknown_id_leaves_file [OF a b shop_fresh_new_photo] show ?thesis
    by simp
qed




subsection \<open>Reading a photo\<close>

text \<open>
  C10. Whatever bytes a record's photo file holds, \<open>GET /inventory/:id/photo\<close>
  answers with \<open>res.type('jpg')\<close> and exactly those bytes; and the upload stores
  whatever bytes it is sent, without looking at them.
\<close>

theorem photo_served_as_jpg:
  "(findItem (inventory s) (params_id req) = Some i \<longrightarrow> photoFilename i = Some name \<longrightarrow>
    name \<noteq> [] \<longrightarrow> photos s name = Some content \<longrightarrow>
      get_inventory_id_photo s req = SendFile ''jpg'' content) \<and>
   (req_file up = Some (name, content) \<longrightarrow>
      photos (upload_single s0 up) name = Some content)"
  by (simp add: get_inventory_id_photo_def truthy_def upload_single_photos)

text \<open>Witness: a PNG is stored by the upload, and a PNG file is served as jpg.\<close>

theorem photo_served_as_jpg_witness:
  "photos (upload_single empty_shop (plain_request\<lparr>req_file := Some (gadget_photo, png)\<rparr>))
     gadget_photo = Some png \<and>
   get_inventory_id_photo (shop\<lparr>photos := [gadget_photo \<mapsto> png]\<rparr>)
     (plain_request\<lparr>params_id := ascii ''2''\<rparr>) = SendFile ''jpg'' png"
proof -
  let ?s = "shop\<lparr>photos := [gadget_photo \<mapsto> png]\<rparr>"
  let ?req = "plain_request\<lparr>params_id := ascii ''2''\<rparr>"
  let ?up = "plain_request\<lparr>req_file := Some (gadget_photo, png)\<rparr>"
  have a: "findItem (inventory ?s) (params_id ?req) = Some gadget"
    by (simp add: shop_find_gadget)
  have b: "photoFilename gadget = Some gadget_photo"
    by (simp add: gadget_def)
  have c: "photos ?s gadget_photo = Some png"
    by simp
  have d: "req_file ?up = Some (gadget_photo, png)"
    by simp
  from photo_served_as_jpg [of ?s ?req gadget gadget_photo png ?up empty_shop]
    a b c d gadget_photo_nonempty
  show ?thesis by blast
qed

end
